theory Spec2Isabelle
  imports Main "HOL-Library.AList"
begin

section \<open>The LogTrace relay server\<close>

text \<open>
  The relay server keeps two in-memory registries, \<open>streams\<close> (stream id to descriptor)
  and \<open>nodeMap\<close> (socket id to node identity and current stream), and reacts to the
  events \<open>connection\<close>, \<open>stream:create\<close>, \<open>stream:join\<close>, \<open>stream:leave\<close>,
  \<open>log:push\<close>, \<open>stream:list\<close> and \<open>disconnect\<close>. Each handler runs to completion
  before the next event is dispatched, so a handler is a function from the state before
  to the state after, together with the messages it emits.
\<close>

subsection \<open>JavaScript values carried by events\<close>

text \<open>
  The \<open>data\<close> argument of an event is whatever the client sent: a decoded JSON value,
  or \<open>undefined\<close> when the client sent no argument. Numbers are kept as integers; the
  handlers only ever test a number for being zero.
\<close>

datatype jsval =
    JUndefined
  | JNull
  | JBool bool
  | JNum int
  | JStr string
  | JArr "jsval list"
  | JObj "(string \<times> jsval) list"

datatype js_error = TypeError

text \<open>\<open>!v\<close> is \<open>\<not> truthy v\<close>.\<close>

fun truthy :: "jsval \<Rightarrow> bool" where
  "truthy JUndefined = False"
| "truthy JNull = False"
| "truthy (JBool b) = b"
| "truthy (JNum n) = (n \<noteq> 0)"
| "truthy (JStr s) = (s \<noteq> [])"
| "truthy (JArr xs) = True"
| "truthy (JObj fs) = True"

text \<open>
  \<open>a !== b\<close> is \<open>\<not> strict_eq a b\<close>. Primitives compare by value; two objects or
  arrays are equal only when they are the same reference, and values that arrived in
  different events (or were decoded from different places) never are.
\<close>

fun strict_eq :: "jsval \<Rightarrow> jsval \<Rightarrow> bool" where
  "strict_eq JUndefined JUndefined = True"
| "strict_eq JNull JNull = True"
| "strict_eq (JBool a) (JBool b) = (a = b)"
| "strict_eq (JNum a) (JNum b) = (a = b)"
| "strict_eq (JStr a) (JStr b) = (a = b)"
| "strict_eq a b = False"

text \<open>Destructuring \<open>const { ... } = data\<close> throws a TypeError exactly on these two values.\<close>

fun nullish :: "jsval \<Rightarrow> bool" where
  "nullish JUndefined = True"
| "nullish JNull = True"
| "nullish v = False"

text \<open>
  Reading one of the property names the handlers destructure (\<open>streamName\<close>,
  \<open>passwordHash\<close>, \<open>streamId\<close>, \<open>payload\<close>, \<open>level\<close>): an own property of a decoded
  object, \<open>undefined\<close> on anything else.
\<close>

fun get_prop :: "jsval \<Rightarrow> string \<Rightarrow> jsval" where
  "get_prop (JObj fs) k = (case map_of fs k of None \<Rightarrow> JUndefined | Some v \<Rightarrow> v)"
| "get_prop v k = JUndefined"

subsection \<open>Containers\<close>

text \<open>
  A JavaScript \<open>Set\<close> is a duplicate-free list in insertion order; a \<open>Map\<close> is an
  association list in insertion order, read with \<open>map_of\<close>, written with
  \<open>AList.update\<close> (\<open>set\<close>) and \<open>AList.delete\<close> (\<open>delete\<close>); mutating the object stored
  under a key is \<open>AList.map_entry\<close>.
\<close>

definition Set_add :: "'a \<Rightarrow> 'a list \<Rightarrow> 'a list" where
  "Set_add x xs = (if x \<in> set xs then xs else xs @ [x])"

definition Set_delete :: "'a \<Rightarrow> 'a list \<Rightarrow> 'a list" where
  "Set_delete x xs = removeAll x xs"

text \<open>\<open>Map.get\<close> with a key that came from the client: only a string can hit a string key.\<close>

fun Map_get :: "(string \<times> 'v) list \<Rightarrow> jsval \<Rightarrow> 'v option" where
  "Map_get m (JStr k) = map_of m k"
| "Map_get m v = None"

fun str_of :: "jsval \<Rightarrow> string" where
  "str_of (JStr k) = k"
| "str_of v = []"

subsection \<open>State\<close>

record stream =
  stream_id :: string
  name :: jsval
  passwordHash :: jsval
  createdAt :: nat
  nodes :: "string list"

record node =
  nodeId :: string
  streamId :: "string option"

text \<open>
  Besides the two registries the state holds what Socket.IO keeps for the server: the
  rooms of its adapter (room name to the sockets in it), and the connected sockets whose
  listeners are registered, each with the \<open>nodeId\<close> its listeners captured.
\<close>

record server =
  streams :: "(string \<times> stream) list"
  nodeMap :: "(string \<times> node) list"
  rooms :: "(string \<times> string list) list"
  sockets :: "(string \<times> string) list"

definition init :: server where
  "init = \<lparr>streams = [], nodeMap = [], rooms = [], sockets = []\<rparr>"

subsection \<open>Messages\<close>

datatype message =
    NodeAssigned string
  | StreamCreateFailed string
  | StreamCreateOk string jsval
  | StreamJoinFailed string
  | StreamJoinOk string jsval
  | StreamLeaveOk
  | LogPushFailed string
  | LogPushOk
  | LogBroadcast string string jsval jsval nat
  | NodeList string "string list"
  | StreamListResult "(string \<times> jsval \<times> nat \<times> nat) list"

text \<open>An emission is one \<open>emit\<close> call: the sockets it is delivered to, and the message.\<close>

type_synonym emission = "string list \<times> message"

text \<open>The error texts of the source, under the names the specification gives them.\<close>

definition InvalidRequest :: string where
  "InvalidRequest = ''Missing required parameters''"

definition NotFound :: string where
  "NotFound = ''Stream not found''"

definition Unauthorized :: string where
  "Unauthorized = ''Invalid access key''"

definition NoStream :: string where
  "NoStream = ''Not connected to any stream''"

definition EmptyPayload :: string where
  "EmptyPayload = ''Empty payload''"

subsection \<open>Socket.IO rooms\<close>

definition room_members :: "(string \<times> string list) list \<Rightarrow> string \<Rightarrow> string list" where
  "room_members rs r = (case map_of rs r of None \<Rightarrow> [] | Some ms \<Rightarrow> ms)"

text \<open>\<open>socket.join(room)\<close>.\<close>

definition socket_join :: "string \<Rightarrow> string \<Rightarrow> server \<Rightarrow> server" where
  "socket_join sid r st =
     st\<lparr>rooms := AList.update r (Set_add sid (room_members (rooms st) r)) (rooms st)\<rparr>"

text \<open>
  \<open>socket.leave(room)\<close>. (The adapter also forgets a room that became empty; no reader
  can tell an empty room from a missing one, so the entry is kept.)
\<close>

definition socket_leave :: "string \<Rightarrow> string \<Rightarrow> server \<Rightarrow> server" where
  "socket_leave sid r st = st\<lparr>rooms := AList.map_entry r (Set_delete sid) (rooms st)\<rparr>"

text \<open>What Socket.IO does to the rooms when a socket closes, before \<open>disconnect\<close> fires.\<close>

definition leaveAll :: "string \<Rightarrow> server \<Rightarrow> server" where
  "leaveAll sid st = st\<lparr>rooms := map (\<lambda>(r, ms). (r, Set_delete sid ms)) (rooms st)\<rparr>"

text \<open>
  A socket that closes leaves every room and is no longer among the connected sockets.
\<close>

definition socket_close :: "string \<Rightarrow> server \<Rightarrow> server" where
  "socket_close sid st = (leaveAll sid st)\<lparr>sockets := AList.delete sid (sockets st)\<rparr>"

text \<open>\<open>socket.emit(...)\<close> and \<open>io.to(room).emit(...)\<close>.\<close>

definition socket_emit :: "string \<Rightarrow> message \<Rightarrow> emission" where
  "socket_emit sid m = ([sid], m)"

definition io_to_emit :: "server \<Rightarrow> string \<Rightarrow> message \<Rightarrow> emission" where
  "io_to_emit st r m = (room_members (rooms st) r, m)"

subsection \<open>Helpers of the source\<close>

definition generateNodeId :: "string \<Rightarrow> string" where
  "generateNodeId uuid = ''node-'' @ take 8 uuid"

definition getStreamNodes :: "server \<Rightarrow> string \<Rightarrow> string list" where
  "getStreamNodes st key =
     (case map_of (streams st) key of
        None \<Rightarrow> []
      | Some s \<Rightarrow>
          List.map_filter (\<lambda>socketId. map_option nodeId (map_of (nodeMap st) socketId)) (nodes s))"

definition broadcastNodeList :: "server \<Rightarrow> string \<Rightarrow> emission" where
  "broadcastNodeList st key = io_to_emit st key (NodeList key (getStreamNodes st key))"

text \<open>The registry writes the handlers perform.\<close>

definition nodes_delete :: "string \<Rightarrow> string \<Rightarrow> server \<Rightarrow> server" where
  "nodes_delete key sid st =
     st\<lparr>streams := AList.map_entry key (\<lambda>s. s\<lparr>nodes := Set_delete sid (nodes s)\<rparr>) (streams st)\<rparr>"

definition nodes_add :: "string \<Rightarrow> string \<Rightarrow> server \<Rightarrow> server" where
  "nodes_add key sid st =
     st\<lparr>streams := AList.map_entry key (\<lambda>s. s\<lparr>nodes := Set_add sid (nodes s)\<rparr>) (streams st)\<rparr>"

definition nodeMap_set :: "string \<Rightarrow> node \<Rightarrow> server \<Rightarrow> server" where
  "nodeMap_set sid n st = st\<lparr>nodeMap := AList.update sid n (nodeMap st)\<rparr>"

definition nodeMap_delete :: "string \<Rightarrow> server \<Rightarrow> server" where
  "nodeMap_delete sid st = st\<lparr>nodeMap := AList.delete sid (nodeMap st)\<rparr>"

text \<open>
  \<open>currentNode && currentNode.streamId\<close>: the stream id when the entry exists and its
  \<open>streamId\<close> is a non-empty string, nothing otherwise.
\<close>

definition currentStream :: "server \<Rightarrow> string \<Rightarrow> string option" where
  "currentStream st sid =
     (case map_of (nodeMap st) sid of
        None \<Rightarrow> None
      | Some currentNode \<Rightarrow>
          (case streamId currentNode of
             None \<Rightarrow> None
           | Some key \<Rightarrow> if key = [] then None else Some key))"

subsection \<open>The handlers\<close>

text \<open>
  Every handler takes the state, the socket id, and (where the source uses it) the
  \<open>nodeId\<close> captured by the closure (\<open>nid\<close>). \<open>uuid\<close> is the value \<open>uuidv4()\<close> returns and
  \<open>now\<close> the value \<open>Date.now()\<close> returns, both given by the environment.
\<close>

definition connection :: "server \<Rightarrow> string \<Rightarrow> string \<Rightarrow> server \<times> emission list" where
  "connection st sid uuid =
     (let nid = generateNodeId uuid;
          st1 = nodeMap_set sid \<lparr>nodeId = nid, streamId = None\<rparr> st;
          st2 = st1\<lparr>sockets := AList.update sid nid (sockets st1)\<rparr>
      in (st2, [socket_emit sid (NodeAssigned nid)]))"

definition stream_create ::
  "server \<Rightarrow> string \<Rightarrow> string \<Rightarrow> jsval \<Rightarrow> string \<Rightarrow> nat \<Rightarrow> js_error + server \<times> emission list" where
  "stream_create st sid nid data uuid now =
     (if nullish data then Inl TypeError
      else
        let streamName = get_prop data ''streamName'';
            passwordHash' = get_prop data ''passwordHash''
        in if \<not> truthy streamName \<or> \<not> truthy passwordHash'
           then Inr (st, [socket_emit sid (StreamCreateFailed ''Missing required parameters'')])
           else
             let streamId = uuid;
                 st1 = st\<lparr>streams := AList.update streamId
                          \<lparr>stream_id = streamId, name = streamName, passwordHash = passwordHash',
                           createdAt = now, nodes = []\<rparr> (streams st)\<rparr>
             in Inr (st1, [socket_emit sid (StreamCreateOk streamId streamName)]))"

definition leave_previous :: "server \<Rightarrow> string \<Rightarrow> server \<times> emission list" where
  "leave_previous st sid =
     (case currentStream st sid of
        None \<Rightarrow> (st, [])
      | Some old \<Rightarrow>
          (case map_of (streams st) old of
             None \<Rightarrow> (st, [])
           | Some oldStream \<Rightarrow>
               let st1 = socket_leave sid old (nodes_delete old sid st)
               in (st1, [broadcastNodeList st1 old])))"

definition stream_join ::
  "server \<Rightarrow> string \<Rightarrow> string \<Rightarrow> jsval \<Rightarrow> js_error + server \<times> emission list" where
  "stream_join st sid nid data =
     (if nullish data then Inl TypeError
      else
        let streamId = get_prop data ''streamId'';
            passwordHash' = get_prop data ''passwordHash''
        in case Map_get (streams st) streamId of
             None \<Rightarrow> Inr (st, [socket_emit sid (StreamJoinFailed ''Stream not found'')])
           | Some s \<Rightarrow>
               if \<not> strict_eq (passwordHash s) passwordHash'
               then Inr (st, [socket_emit sid (StreamJoinFailed ''Invalid access key'')])
               else
                 let key = str_of streamId;
                     (st1, out1) = leave_previous st sid;
                     st2 = nodeMap_set sid \<lparr>nodeId = nid, streamId = Some key\<rparr>
                             (socket_join sid key (nodes_add key sid st1))
                 in Inr (st2, out1 @ [socket_emit sid (StreamJoinOk key (name s)),
                                      broadcastNodeList st2 key]))"

definition stream_leave :: "server \<Rightarrow> string \<Rightarrow> string \<Rightarrow> server \<times> emission list" where
  "stream_leave st sid nid =
     (case currentStream st sid of
        None \<Rightarrow> (st, [socket_emit sid StreamLeaveOk])
      | Some key \<Rightarrow>
          let (st1, out1) =
                (case map_of (streams st) key of
                   None \<Rightarrow> (st, [])
                 | Some s \<Rightarrow>
                     let st' = socket_leave sid key (nodes_delete key sid st)
                     in (st', [broadcastNodeList st' key]));
              st2 = nodeMap_set sid \<lparr>nodeId = nid, streamId = None\<rparr> st1
          in (st2, out1 @ [socket_emit sid StreamLeaveOk]))"

definition log_push ::
  "server \<Rightarrow> string \<Rightarrow> jsval \<Rightarrow> nat \<Rightarrow> js_error + server \<times> emission list" where
  "log_push st sid data now =
     (case currentStream st sid of
        None \<Rightarrow> Inr (st, [socket_emit sid (LogPushFailed ''Not connected to any stream'')])
      | Some key \<Rightarrow>
          if nullish data then Inl TypeError
          else
            let payload = get_prop data ''payload'';
                level = (if get_prop data ''level'' = JUndefined then JStr ''INFO''
                         else get_prop data ''level'')
            in if \<not> truthy payload
               then Inr (st, [socket_emit sid (LogPushFailed ''Empty payload'')])
               else
                 let sender = (case map_of (nodeMap st) sid of
                                 None \<Rightarrow> [] | Some currentNode \<Rightarrow> nodeId currentNode)
                 in Inr (st, [io_to_emit st key (LogBroadcast key sender payload level now),
                              socket_emit sid LogPushOk]))"

definition stream_list :: "server \<Rightarrow> string \<Rightarrow> server \<times> emission list" where
  "stream_list st sid =
     (st, [socket_emit sid (StreamListResult
             (map (\<lambda>(key, s). (key, name s, length (nodes s), createdAt s)) (streams st)))])"

definition disconnect :: "server \<Rightarrow> string \<Rightarrow> server \<times> emission list" where
  "disconnect st sid =
     (case map_of (nodeMap st) sid of
        None \<Rightarrow> (st, [])
      | Some currentNode \<Rightarrow>
          let (st1, out1) =
                (case currentStream st sid of
                   None \<Rightarrow> (st, [])
                 | Some key \<Rightarrow>
                     (case map_of (streams st) key of
                        None \<Rightarrow> (st, [])
                      | Some s \<Rightarrow>
                          let st' = nodes_delete key sid st
                          in (st', [broadcastNodeList st' key])))
          in (nodeMap_delete sid st1, out1))"

subsection \<open>Dispatch\<close>

text \<open>
  An event is what the transport hands to the server, with the values the environment
  supplies while the handler runs. Socket.IO puts a new socket into the room named by its
  own id before the connection handler runs, dispatches a client event only to a
  connected socket, and on close takes the socket out of every room and out of the
  connected sockets before the \<open>disconnect\<close> listener runs; a second close of the same
  socket is ignored.
\<close>

datatype event =
    Connection string string
  | StreamCreate string jsval string nat
  | StreamJoin string jsval
  | StreamLeave string
  | LogPush string jsval nat
  | StreamList string
  | Disconnect string

fun step :: "server \<Rightarrow> event \<Rightarrow> js_error + server \<times> emission list" where
  "step st (Connection sid uuid) = Inr (connection (socket_join sid sid st) sid uuid)"
| "step st (StreamCreate sid data uuid now) =
     (case map_of (sockets st) sid of
        None \<Rightarrow> Inr (st, [])
      | Some nid \<Rightarrow> stream_create st sid nid data uuid now)"
| "step st (StreamJoin sid data) =
     (case map_of (sockets st) sid of
        None \<Rightarrow> Inr (st, [])
      | Some nid \<Rightarrow> stream_join st sid nid data)"
| "step st (StreamLeave sid) =
     (case map_of (sockets st) sid of
        None \<Rightarrow> Inr (st, [])
      | Some nid \<Rightarrow> Inr (stream_leave st sid nid))"
| "step st (LogPush sid data now) =
     (case map_of (sockets st) sid of
        None \<Rightarrow> Inr (st, [])
      | Some nid \<Rightarrow> log_push st sid data now)"
| "step st (StreamList sid) =
     (case map_of (sockets st) sid of
        None \<Rightarrow> Inr (st, [])
      | Some nid \<Rightarrow> Inr (stream_list st sid))"
| "step st (Disconnect sid) =
     (case map_of (sockets st) sid of
        None \<Rightarrow> Inr (st, [])
      | Some nid \<Rightarrow>
          Inr (disconnect (socket_close sid st) sid))"

text \<open>
  Running a sequence of events: the state and the emissions so far, and the exception
  that ended the run if a handler threw (nothing catches it, so the process stops there).
\<close>

fun run :: "server \<Rightarrow> event list \<Rightarrow> server \<times> emission list \<times> js_error option" where
  "run st [] = (st, [], None)"
| "run st (ev # evs) =
     (case step st ev of
        Inl e \<Rightarrow> (st, [], Some e)
      | Inr (st1, out1) \<Rightarrow>
          (case run st1 evs of (st2, out2, r) \<Rightarrow> (st2, out1 @ out2, r)))"

text \<open>
  What the environment guarantees about the identifiers it supplies: the id of a new
  socket is not the id of a connected socket and not a stream id; the UUID generated for
  a stream is a non-empty string, not a registered stream id and not the id of a
  connected socket. (Socket ids are 20 characters, UUIDs 36.)
\<close>

fun fresh :: "server \<Rightarrow> event \<Rightarrow> bool" where
  "fresh st (Connection sid uuid) =
     (map_of (sockets st) sid = None \<and> map_of (streams st) sid = None)"
| "fresh st (StreamCreate sid data uuid now) =
     (uuid \<noteq> [] \<and> map_of (streams st) uuid = None \<and> map_of (sockets st) uuid = None)"
| "fresh st ev = True"

fun fresh_run :: "server \<Rightarrow> event list \<Rightarrow> bool" where
  "fresh_run st [] = True"
| "fresh_run st (ev # evs) =
     (fresh st ev \<and>
      (case step st ev of Inl e \<Rightarrow> True | Inr (st1, out1) \<Rightarrow> fresh_run st1 evs))"

section \<open>Properties\<close>

subsection \<open>Vocabulary of the statements\<close>

text \<open>
  A text field of a request, as the JSDoc of the handlers types it: a string, or nothing
  (the property is missing, or \<open>null\<close>).
\<close>

fun text_or_absent :: "jsval \<Rightarrow> bool" where
  "text_or_absent JUndefined = True"
| "text_or_absent JNull = True"
| "text_or_absent (JStr s) = True"
| "text_or_absent v = False"

definition absent_or_empty :: "jsval \<Rightarrow> bool" where
  "absent_or_empty v = (v = JUndefined \<or> v = JNull \<or> v = JStr [])"

text \<open>Socket \<open>sid\<close> is in the member set of the stream registered under \<open>key\<close>.\<close>

definition member_of :: "server \<Rightarrow> string \<Rightarrow> string \<Rightarrow> bool" where
  "member_of st sid key =
     (case map_of (streams st) key of None \<Rightarrow> False | Some s \<Rightarrow> sid \<in> set (nodes s))"

text \<open>
  Membership consistency: a registered connection whose \<open>streamId\<close> is null is in no
  member set; one whose \<open>streamId\<close> is \<open>key\<close> is in the member set of \<open>key\<close> and in no
  other.
\<close>

definition consistent :: "server \<Rightarrow> bool" where
  "consistent st =
     (\<forall>sid n. map_of (nodeMap st) sid = Some n \<longrightarrow>
        (case streamId n of
           None \<Rightarrow> (\<forall>k. \<not> member_of st sid k)
         | Some key \<Rightarrow> member_of st sid key \<and> (\<forall>k. member_of st sid k \<longrightarrow> k = key)))"

subsection \<open>The invariant of the reachable states\<close>

text \<open>
  The connected sockets are the registered connections, with the node id the closure
  holds; the registry's current stream and the member sets agree; the room of a stream
  holds exactly its members, each once; a socket is only in rooms of streams and in its
  own room; no stream id is the empty string.
\<close>

definition inv_sockets :: "server \<Rightarrow> bool" where
  "inv_sockets st = (\<forall>sid. map_of (sockets st) sid = map_option nodeId (map_of (nodeMap st) sid))"

definition inv_current :: "server \<Rightarrow> bool" where
  "inv_current st =
     (\<forall>sid n key. map_of (nodeMap st) sid = Some n \<and> streamId n = Some key \<longrightarrow>
        key \<noteq> [] \<and> member_of st sid key)"

definition inv_member :: "server \<Rightarrow> bool" where
  "inv_member st =
     (\<forall>sid key. member_of st sid key \<longrightarrow>
        (\<exists>n. map_of (nodeMap st) sid = Some n \<and> streamId n = Some key))"

definition inv_rooms :: "server \<Rightarrow> bool" where
  "inv_rooms st =
     (\<forall>key s. map_of (streams st) key = Some s \<longrightarrow>
        distinct (room_members (rooms st) key) \<and>
        set (room_members (rooms st) key) = set (nodes s) \<and>
        map_of (sockets st) key = None)"

definition inv_names :: "server \<Rightarrow> bool" where
  "inv_names st =
     (\<forall>r x. x \<in> set (room_members (rooms st) r) \<longrightarrow>
        map_of (streams st) r \<noteq> None \<or> (x = r \<and> map_of (sockets st) r \<noteq> None))"

definition inv_keys :: "server \<Rightarrow> bool" where
  "inv_keys st = (map_of (streams st) [] = None)"

definition server_inv :: "server \<Rightarrow> bool" where
  "server_inv st = (inv_sockets st \<and> inv_current st \<and> inv_member st \<and> inv_rooms st \<and> inv_names st \<and>
     inv_keys st)"

text \<open>
  The state the \<open>disconnect\<close> listener leaves behind before it forgets the connection.
\<close>

definition detached :: "string \<Rightarrow> server \<Rightarrow> server" where
  "detached sid st =
     (case currentStream st sid of
        None \<Rightarrow> socket_close sid st
      | Some key \<Rightarrow> nodes_delete key sid (socket_close sid st))"

text \<open>Two descriptors that differ at most in their member sets.\<close>

definition same_descriptor :: "stream \<Rightarrow> stream \<Rightarrow> bool" where
  "same_descriptor s s' =
     (stream_id s' = stream_id s \<and> name s' = name s \<and> passwordHash s' = passwordHash s \<and>
      createdAt s' = createdAt s)"

text \<open>Every stream of \<open>st\<close> is still registered in \<open>st'\<close>, with the same descriptor.\<close>

definition keeps :: "server \<Rightarrow> server \<Rightarrow> bool" where
  "keeps st st' =
     (\<forall>k s. map_of (streams st) k = Some s \<longrightarrow>
        (\<exists>s'. map_of (streams st') k = Some s' \<and> same_descriptor s s'))"

text \<open>
  The stream ids returned by successful creates and the node ids assigned to new
  connections, read off the emissions of a run; and the UUIDs the environment generated
  for the events of the run.
\<close>

definition created_ids :: "emission list \<Rightarrow> string list" where
  "created_ids out =
     concat (map (\<lambda>(rcp, m). case m of StreamCreateOk key n \<Rightarrow> [key] | _ \<Rightarrow> []) out)"

definition assigned_ids :: "emission list \<Rightarrow> string list" where
  "assigned_ids out =
     concat (map (\<lambda>(rcp, m). case m of NodeAssigned n \<Rightarrow> [n] | _ \<Rightarrow> []) out)"

fun create_uuid :: "event \<Rightarrow> string list" where
  "create_uuid (StreamCreate sid data uuid now) = [uuid]"
| "create_uuid ev = []"

fun connection_uuid :: "event \<Rightarrow> string list" where
  "connection_uuid (Connection sid uuid) = [uuid]"
| "connection_uuid ev = []"

definition uuids :: "event list \<Rightarrow> string list" where
  "uuids evs = concat (map (\<lambda>ev. connection_uuid ev @ create_uuid ev) evs)"

subsection \<open>A scenario\<close>

text \<open>
  The scenario of the specification: a stream \<open>alpha\<close> with token \<open>t1\<close> is created,
  its creator joins it, a second connection joins it. The states are the ones the events
  lead to.
\<close>

definition alpha_request :: jsval where
  "alpha_request = JObj [(''streamName'', JStr ''alpha''), (''passwordHash'', JStr ''t1'')]"

definition join_request :: jsval where
  "join_request = JObj [(''streamId'', JStr ''S1''), (''passwordHash'', JStr ''t1'')]"

definition one_connected :: "event list" where
  "one_connected = [Connection ''a'' ''u1'']"

definition one_connected_state :: server where
  "one_connected_state =
     \<lparr>streams = [],
      nodeMap = [(''a'', \<lparr>nodeId = ''node-u1'', streamId = None\<rparr>)],
      rooms = [(''a'', [''a''])],
      sockets = [(''a'', ''node-u1'')]\<rparr>"

definition created_state :: server where
  "created_state =
     \<lparr>streams = [(''S1'', \<lparr>stream_id = ''S1'', name = JStr ''alpha'',
                           passwordHash = JStr ''t1'', createdAt = 5, nodes = []\<rparr>)],
      nodeMap = [(''a'', \<lparr>nodeId = ''node-u1'', streamId = None\<rparr>)],
      rooms = [(''a'', [''a''])],
      sockets = [(''a'', ''node-u1'')]\<rparr>"

definition one_member :: "event list" where
  "one_member =
     [Connection ''a'' ''u1'', StreamCreate ''a'' alpha_request ''S1'' 5,
      StreamJoin ''a'' join_request]"

definition one_member_state :: server where
  "one_member_state =
     \<lparr>streams = [(''S1'', \<lparr>stream_id = ''S1'', name = JStr ''alpha'',
                           passwordHash = JStr ''t1'', createdAt = 5, nodes = [''a'']\<rparr>)],
      nodeMap = [(''a'', \<lparr>nodeId = ''node-u1'', streamId = Some ''S1''\<rparr>)],
      rooms = [(''a'', [''a'']), (''S1'', [''a''])],
      sockets = [(''a'', ''node-u1'')]\<rparr>"

definition two_members :: "event list" where
  "two_members =
     [Connection ''a'' ''u1'', StreamCreate ''a'' alpha_request ''S1'' 5,
      StreamJoin ''a'' join_request, Connection ''b'' ''u2'', StreamJoin ''b'' join_request]"

definition two_members_state :: server where
  "two_members_state =
     \<lparr>streams = [(''S1'', \<lparr>stream_id = ''S1'', name = JStr ''alpha'',
                           passwordHash = JStr ''t1'', createdAt = 5, nodes = [''a'', ''b'']\<rparr>)],
      nodeMap = [(''a'', \<lparr>nodeId = ''node-u1'', streamId = Some ''S1''\<rparr>),
                 (''b'', \<lparr>nodeId = ''node-u2'', streamId = Some ''S1''\<rparr>)],
      rooms = [(''a'', [''a'']), (''S1'', [''a'', ''b'']), (''b'', [''b''])],
      sockets = [(''a'', ''node-u1''), (''b'', ''node-u2'')]\<rparr>"

definition one_left_state :: server where
  "one_left_state =
     \<lparr>streams = [(''S1'', \<lparr>stream_id = ''S1'', name = JStr ''alpha'',
                           passwordHash = JStr ''t1'', createdAt = 5, nodes = [''b'']\<rparr>)],
      nodeMap = [(''b'', \<lparr>nodeId = ''node-u2'', streamId = Some ''S1''\<rparr>)],
      rooms = [(''a'', []), (''S1'', [''b'']), (''b'', [''b''])],
      sockets = [(''b'', ''node-u2'')]\<rparr>"

subsection \<open>Containers and registry writes\<close>

lemma set_Set_add [simp]: "set (Set_add x xs) = insert x (set xs)"
  by (auto simp: Set_add_def)

lemma set_Set_delete [simp]: "set (Set_delete x xs) = set xs - {x}"
  by (simp add: Set_delete_def)

lemma distinct_Set_add [simp]: "distinct (Set_add x xs) = distinct xs"
  by (auto simp: Set_add_def)

lemma distinct_Set_delete [simp]: "distinct xs \<Longrightarrow> distinct (Set_delete x xs)"
  by (simp add: Set_delete_def distinct_removeAll)

lemma Set_delete_Nil [simp]: "Set_delete x [] = []"
  by (simp add: Set_delete_def)

lemma streams_nodes_delete [simp]:
  "map_of (streams (nodes_delete key sid st)) k =
     (if k = key then map_option (\<lambda>s. s\<lparr>nodes := Set_delete sid (nodes s)\<rparr>) (map_of (streams st) key)
      else map_of (streams st) k)"
  by (simp add: nodes_delete_def map_of_map_entry split: option.splits)

lemma streams_nodes_add [simp]:
  "map_of (streams (nodes_add key sid st)) k =
     (if k = key then map_option (\<lambda>s. s\<lparr>nodes := Set_add sid (nodes s)\<rparr>) (map_of (streams st) key)
      else map_of (streams st) k)"
  by (simp add: nodes_add_def map_of_map_entry split: option.splits)

lemma others_nodes_delete [simp]:
  "nodeMap (nodes_delete key sid st) = nodeMap st"
  "rooms (nodes_delete key sid st) = rooms st"
  "sockets (nodes_delete key sid st) = sockets st"
  by (simp_all add: nodes_delete_def)

lemma others_nodes_add [simp]:
  "nodeMap (nodes_add key sid st) = nodeMap st"
  "rooms (nodes_add key sid st) = rooms st"
  "sockets (nodes_add key sid st) = sockets st"
  by (simp_all add: nodes_add_def)

lemma room_members_join [simp]:
  "room_members (rooms (socket_join sid r st)) r' =
     (if r' = r then Set_add sid (room_members (rooms st) r) else room_members (rooms st) r')"
  by (simp add: socket_join_def room_members_def update_conv')

lemma room_members_leave [simp]:
  "room_members (rooms (socket_leave sid r st)) r' =
     (if r' = r then Set_delete sid (room_members (rooms st) r) else room_members (rooms st) r')"
  by (simp add: socket_leave_def room_members_def map_of_map_entry split: option.splits)

lemma map_of_leaveAll:
  "map_of (map (\<lambda>(r, ms). (r, Set_delete sid ms)) rs) r = map_option (Set_delete sid) (map_of rs r)"
  by (induction rs) auto

lemma room_members_leaveAll [simp]:
  "room_members (rooms (leaveAll sid st)) r = Set_delete sid (room_members (rooms st) r)"
  by (simp add: leaveAll_def room_members_def map_of_leaveAll split: option.splits)

lemma others_socket_join [simp]:
  "streams (socket_join sid r st) = streams st"
  "nodeMap (socket_join sid r st) = nodeMap st"
  "sockets (socket_join sid r st) = sockets st"
  by (simp_all add: socket_join_def)

lemma others_socket_leave [simp]:
  "streams (socket_leave sid r st) = streams st"
  "nodeMap (socket_leave sid r st) = nodeMap st"
  "sockets (socket_leave sid r st) = sockets st"
  by (simp_all add: socket_leave_def)

lemma others_leaveAll [simp]:
  "streams (leaveAll sid st) = streams st"
  "nodeMap (leaveAll sid st) = nodeMap st"
  "sockets (leaveAll sid st) = sockets st"
  by (simp_all add: leaveAll_def)

lemma nodeMap_nodeMap_set [simp]:
  "map_of (nodeMap (nodeMap_set sid n st)) k = (if k = sid then Some n else map_of (nodeMap st) k)"
  by (simp add: nodeMap_set_def update_conv')

lemma nodeMap_nodeMap_delete [simp]:
  "map_of (nodeMap (nodeMap_delete sid st)) k = (if k = sid then None else map_of (nodeMap st) k)"
  by (simp add: nodeMap_delete_def delete_conv')

lemma others_nodeMap_set [simp]:
  "streams (nodeMap_set sid n st) = streams st"
  "rooms (nodeMap_set sid n st) = rooms st"
  "sockets (nodeMap_set sid n st) = sockets st"
  by (simp_all add: nodeMap_set_def)

lemma others_nodeMap_delete [simp]:
  "streams (nodeMap_delete sid st) = streams st"
  "rooms (nodeMap_delete sid st) = rooms st"
  "sockets (nodeMap_delete sid st) = sockets st"
  by (simp_all add: nodeMap_delete_def)

lemma member_of_nodes_delete [simp]:
  "member_of (nodes_delete key sid st) s k = (member_of st s k \<and> \<not> (k = key \<and> s = sid))"
  by (auto simp: member_of_def split: option.splits)

lemma member_of_nodes_add [simp]:
  "member_of (nodes_add key sid st) s k =
     (member_of st s k \<or> (k = key \<and> s = sid \<and> map_of (streams st) key \<noteq> None))"
  by (auto simp: member_of_def split: option.splits)

lemma member_of_others [simp]:
  "member_of (socket_join sid r st) = member_of st"
  "member_of (socket_leave sid r st) = member_of st"
  "member_of (leaveAll sid st) = member_of st"
  "member_of (nodeMap_set sid n st) = member_of st"
  "member_of (nodeMap_delete sid st) = member_of st"
  by (simp_all add: member_of_def fun_eq_iff)

lemma inv_socketsD: "server_inv st \<Longrightarrow> map_of (sockets st) sid = map_option nodeId (map_of (nodeMap st) sid)"
  by (simp add: server_inv_def inv_sockets_def)

lemma inv_currentD:
  "server_inv st \<Longrightarrow> map_of (nodeMap st) sid = Some n \<Longrightarrow> streamId n = Some key \<Longrightarrow>
     key \<noteq> [] \<and> member_of st sid key"
  unfolding server_inv_def inv_current_def by blast

lemma inv_memberD:
  "server_inv st \<Longrightarrow> member_of st sid key \<Longrightarrow>
     \<exists>n. map_of (nodeMap st) sid = Some n \<and> streamId n = Some key"
  unfolding server_inv_def inv_member_def by blast

lemma inv_roomsD:
  "server_inv st \<Longrightarrow> map_of (streams st) key = Some s \<Longrightarrow>
     distinct (room_members (rooms st) key) \<and>
     set (room_members (rooms st) key) = set (nodes s) \<and> map_of (sockets st) key = None"
  unfolding server_inv_def inv_rooms_def by blast

lemma inv_namesD:
  "server_inv st \<Longrightarrow> map_of (streams st) r = None \<Longrightarrow> map_of (sockets st) r = None \<Longrightarrow>
     room_members (rooms st) r = []"
  unfolding server_inv_def inv_names_def by (metis all_not_in_conv set_empty)

lemma inv_names_memD:
  "server_inv st \<Longrightarrow> x \<in> set (room_members (rooms st) r) \<Longrightarrow>
     map_of (streams st) r \<noteq> None \<or> (x = r \<and> map_of (sockets st) r \<noteq> None)"
  unfolding server_inv_def inv_names_def by blast

lemma inv_keysD: "server_inv st \<Longrightarrow> map_of (streams st) [] = None"
  by (simp add: server_inv_def inv_keys_def)

lemma member_of_sockets_update [simp]: "member_of (st\<lparr>sockets := x\<rparr>) = member_of st"
  by (simp add: member_of_def fun_eq_iff)

lemma member_of_streams_update:
  "member_of (st\<lparr>streams := AList.update key s (streams st)\<rparr>) sid k =
     (if k = key then sid \<in> set (nodes s) else member_of st sid k)"
  by (simp add: member_of_def update_conv')

lemma inv_connection:
  assumes "server_inv st" and "map_of (sockets st) sid = None" and "map_of (streams st) sid = None"
  shows "server_inv (fst (connection (socket_join sid sid st) sid uuid))"
proof -
  let ?st' = "fst (connection (socket_join sid sid st) sid uuid)"
  have nm: "map_of (nodeMap st) sid = None"
    using assms(1,2) by (simp add: server_inv_def inv_sockets_def)
  have nomem: "\<not> member_of st sid key" for key
    using inv_memberD [OF assms(1), of sid key] nm by auto
  have 1: "inv_sockets ?st'"
    using assms(1) by (simp add: server_inv_def inv_sockets_def connection_def Let_def update_conv')
  have 2: "inv_current ?st'"
    using assms(1) by (auto simp add: server_inv_def inv_current_def connection_def Let_def)
  have 3: "inv_member ?st'"
    using assms(1) nomem by (auto simp add: server_inv_def inv_member_def connection_def Let_def)
  have 4: "inv_rooms ?st'"
    using assms(1,3) by (auto simp add: server_inv_def inv_rooms_def connection_def Let_def update_conv')
  have 5: "inv_names ?st'"
    unfolding inv_names_def
  proof (intro allI impI)
    fix r x
    assume "x \<in> set (room_members (rooms ?st') r)"
    then have "(r = sid \<and> x = sid) \<or> x \<in> set (room_members (rooms st) r)"
      by (auto simp add: connection_def Let_def split: if_splits)
    then show "map_of (streams ?st') r \<noteq> None \<or> (x = r \<and> map_of (sockets ?st') r \<noteq> None)"
      using inv_names_memD [OF assms(1), of x r] assms(3)
      by (auto simp add: connection_def Let_def update_conv')
  qed
  have 6: "inv_keys ?st'"
    using assms(1) by (simp add: server_inv_def inv_keys_def connection_def Let_def)
  show ?thesis using 1 2 3 4 5 6 by (simp add: server_inv_def)
qed

lemma inv_stream_create:
  assumes "server_inv st" and "uuid \<noteq> []" and "map_of (streams st) uuid = None"
    and "map_of (sockets st) uuid = None"
    and "stream_create st sid nid data uuid now = Inr (st', out)"
  shows "server_inv st'"
proof (cases "st' = st")
  case True
  then show ?thesis using assms(1) by simp
next
  case False
  then obtain s where st': "st' = st\<lparr>streams := AList.update uuid s (streams st)\<rparr>" and ns: "nodes s = []"
    using assms(5) by (auto simp: stream_create_def Let_def split: if_splits)
  have empty: "room_members (rooms st) uuid = []"
    using assms(1,3,4) by (rule inv_namesD)
  have nomem: "\<not> member_of st x uuid" for x
    using assms(3) by (simp add: member_of_def)
  have 1: "inv_sockets st'"
    using assms(1) by (simp add: server_inv_def inv_sockets_def st')
  have 2: "inv_current st'"
    using assms(1) nomem unfolding server_inv_def inv_current_def st'
    by (auto simp add: member_of_streams_update)
  have 3: "inv_member st'"
    using assms(1) unfolding server_inv_def inv_member_def st'
    by (auto simp add: member_of_streams_update ns split: if_splits)
  have 4: "inv_rooms st'"
    using assms(1,4) empty by (auto simp add: server_inv_def inv_rooms_def st' update_conv' ns)
  have 5: "inv_names st'"
    using assms(1) by (auto simp add: server_inv_def inv_names_def st' update_conv')
  have 6: "inv_keys st'"
    using assms(1,2) by (simp add: server_inv_def inv_keys_def st' update_conv')
  show ?thesis using 1 2 3 4 5 6 by (simp add: server_inv_def)
qed

lemma no_current_no_member:
  assumes "server_inv st" and "currentStream st sid = None"
  shows "\<not> member_of st sid k"
proof
  assume "member_of st sid k"
  then obtain n where "map_of (nodeMap st) sid = Some n" "streamId n = Some k"
    using inv_memberD [OF assms(1)] by blast
  moreover have "k \<noteq> []" using inv_currentD [OF assms(1)] calculation by blast
  ultimately show False using assms(2) by (simp add: currentStream_def)
qed

lemma current_member:
  assumes "server_inv st" and "currentStream st sid = Some key"
  shows "member_of st sid key" and "\<And>k. member_of st sid k \<Longrightarrow> k = key"
proof -
  obtain n where n: "map_of (nodeMap st) sid = Some n" "streamId n = Some key"
    using assms(2) by (auto simp: currentStream_def split: option.splits if_splits)
  show "member_of st sid key" using inv_currentD [OF assms(1) n] by simp
  show "k = key" if "member_of st sid k" for k
    using inv_memberD [OF assms(1) that] n by auto
qed

lemma leave_previous_inv:
  assumes "server_inv st" and "leave_previous st sid = (st1, out1)"
  shows "nodeMap st1 = nodeMap st" and "sockets st1 = sockets st"
    and "member_of st1 s k = (member_of st s k \<and> s \<noteq> sid)"
    and "(map_of (streams st1) k = None) = (map_of (streams st) k = None)"
    and "inv_rooms st1" and "inv_names st1"
proof -
  show "nodeMap st1 = nodeMap st"
    using assms(2) by (auto simp: leave_previous_def Let_def split: option.splits)
  show so: "sockets st1 = sockets st"
    using assms(2) by (auto simp: leave_previous_def Let_def split: option.splits)
  have sk: "(map_of (streams st1) k = None) = (map_of (streams st) k = None)" for k
    using assms(2) by (auto simp: leave_previous_def Let_def split: option.splits if_splits)
  show "(map_of (streams st1) k = None) = (map_of (streams st) k = None)"
    by (rule sk)
  show "member_of st1 s k = (member_of st s k \<and> s \<noteq> sid)"
  proof (cases "currentStream st sid")
    case None
    then show ?thesis
      using assms(2) no_current_no_member [OF assms(1) None] by (auto simp: leave_previous_def)
  next
    case (Some old)
    then obtain x where "map_of (streams st) old = Some x"
      using current_member(1) [OF assms(1) Some] by (auto simp: member_of_def split: option.splits)
    then have "st1 = socket_leave sid old (nodes_delete old sid st)"
      using assms(2) Some by (simp add: leave_previous_def Let_def)
    then show ?thesis using current_member(2) [OF assms(1) Some] by auto
  qed
  show "inv_rooms st1"
    using assms unfolding server_inv_def inv_rooms_def
    by (auto simp: leave_previous_def Let_def split: option.splits if_splits)
  show "inv_names st1"
    unfolding inv_names_def
  proof (intro allI impI)
    fix r x
    assume "x \<in> set (room_members (rooms st1) r)"
    then have "x \<in> set (room_members (rooms st) r)"
      using assms(2) by (auto simp: leave_previous_def Let_def split: option.splits if_splits)
    then have "map_of (streams st) r \<noteq> None \<or> (x = r \<and> map_of (sockets st) r \<noteq> None)"
      by (rule inv_names_memD [OF assms(1)])
    then show "map_of (streams st1) r \<noteq> None \<or> (x = r \<and> map_of (sockets st1) r \<noteq> None)"
      using sk [of r] so by simp
  qed
qed

lemma Map_get_Some: "Map_get m v = Some x \<Longrightarrow> v = JStr (str_of v) \<and> map_of m (str_of v) = Some x"
  by (cases v) auto

lemma stream_join_cases:
  assumes "stream_join st sid nid data = Inr (st', out)"
  shows "st' = st \<or>
    (\<exists>key s st1 out1. map_of (streams st) key = Some s \<and> leave_previous st sid = (st1, out1) \<and>
       st' = nodeMap_set sid \<lparr>nodeId = nid, streamId = Some key\<rparr>
               (socket_join sid key (nodes_add key sid st1)))"
proof (cases "nullish data")
  case True
  then show ?thesis using assms by (simp add: stream_join_def)
next
  case nn: False
  show ?thesis
  proof (cases "Map_get (streams st) (get_prop data ''streamId'')")
    case None
    then show ?thesis using assms nn by (simp add: stream_join_def)
  next
    case (Some s)
    note g = Map_get_Some [OF Some]
    show ?thesis
    proof (cases "strict_eq (passwordHash s) (get_prop data ''passwordHash'')")
      case False
      then show ?thesis using assms nn Some by (simp add: stream_join_def)
    next
      case True
      obtain st1 out1 where lp: "leave_previous st sid = (st1, out1)"
        by (cases "leave_previous st sid") auto
      have "st' = nodeMap_set sid \<lparr>nodeId = nid, streamId = Some (str_of (get_prop data ''streamId''))\<rparr>
               (socket_join sid (str_of (get_prop data ''streamId''))
                  (nodes_add (str_of (get_prop data ''streamId'')) sid st1))"
        using assms nn Some True lp by (simp add: stream_join_def Let_def)
      then show ?thesis using g lp by blast
    qed
  qed
qed

lemma inv_joined:
  assumes "server_inv st" and "map_of (sockets st) sid = Some nid"
    and "map_of (streams st) key = Some s" and "leave_previous st sid = (st1, out1)"
    and st': "st' = nodeMap_set sid \<lparr>nodeId = nid, streamId = Some key\<rparr>
               (socket_join sid key (nodes_add key sid st1))"
  shows "server_inv st'"
proof -
  note lp = leave_previous_inv [OF assms(1,4)]
  have key1: "map_of (streams st1) key \<noteq> None" using lp(4) [of key] assms(3) by simp
  have keyne: "key \<noteq> []" using inv_keysD [OF assms(1)] assms(3) by auto
  have mem': "member_of st' x k = ((member_of st x k \<and> x \<noteq> sid) \<or> (k = key \<and> x = sid))" for x k
    using key1 by (auto simp: st' lp(3))
  have 1: "inv_sockets st'"
    using inv_socketsD [OF assms(1)] assms(2) by (auto simp: inv_sockets_def st' lp(1,2))
  have 2: "inv_current st'"
    unfolding inv_current_def
  proof (intro allI impI)
    fix x n k
    assume a: "map_of (nodeMap st') x = Some n \<and> streamId n = Some k"
    show "k \<noteq> [] \<and> member_of st' x k"
    proof (cases "x = sid")
      case True
      have "k = key" using a True by (auto simp: st')
      then show ?thesis using True keyne mem' [of sid key] by simp
    next
      case False
      then have "map_of (nodeMap st) x = Some n" using a by (simp add: st' lp(1))
      then show ?thesis using inv_currentD [OF assms(1), of x n k] a False by (simp add: mem')
    qed
  qed
  have 3: "inv_member st'"
    unfolding inv_member_def
  proof (intro allI impI)
    fix x k
    assume "member_of st' x k"
    then consider "member_of st x k" "x \<noteq> sid" | "k = key" "x = sid" using mem' by blast
    then show "\<exists>n. map_of (nodeMap st') x = Some n \<and> streamId n = Some k"
    proof cases
      case 1
      then show ?thesis using inv_memberD [OF assms(1) 1(1)] by (simp add: st' lp(1))
    next
      case 2
      then show ?thesis by (simp add: st')
    qed
  qed
  have 4: "inv_rooms st'"
    using lp(5) inv_roomsD [OF assms(1,3)]
    by (auto simp add: inv_rooms_def st' lp(2) split: if_splits)
  have 5: "inv_names st'"
    unfolding inv_names_def
  proof (intro allI impI)
    fix r x
    assume "x \<in> set (room_members (rooms st') r)"
    then have "r = key \<or> x \<in> set (room_members (rooms st1) r)"
      by (auto simp: st' split: if_splits)
    then show "map_of (streams st') r \<noteq> None \<or> (x = r \<and> map_of (sockets st') r \<noteq> None)"
      using lp(6) key1 by (auto simp: st' inv_names_def)
  qed
  have 6: "inv_keys st'"
    using inv_keysD [OF assms(1)] lp(4) [of "[]"] keyne by (simp add: inv_keys_def st')
  show ?thesis using 1 2 3 4 5 6 by (simp add: server_inv_def)
qed

lemma inv_stream_join:
  assumes "server_inv st" and "map_of (sockets st) sid = Some nid"
    and "stream_join st sid nid data = Inr (st', out)"
  shows "server_inv st'"
  using stream_join_cases [OF assms(3)] assms(1,2) inv_joined by blast

lemma stream_leave_eq:
  "stream_leave st sid nid =
     (case currentStream st sid of
        None \<Rightarrow> (st, [socket_emit sid StreamLeaveOk])
      | Some key \<Rightarrow>
          (case leave_previous st sid of
             (st1, out1) \<Rightarrow> (nodeMap_set sid \<lparr>nodeId = nid, streamId = None\<rparr> st1,
                              out1 @ [socket_emit sid StreamLeaveOk])))"
  by (simp add: stream_leave_def leave_previous_def Let_def split: option.splits)

lemma inv_stream_leave:
  assumes "server_inv st" and "map_of (sockets st) sid = Some nid"
  shows "server_inv (fst (stream_leave st sid nid))"
proof (cases "currentStream st sid")
  case None
  then show ?thesis using assms(1) by (simp add: stream_leave_eq)
next
  case (Some key)
  obtain st1 out1 where l: "leave_previous st sid = (st1, out1)"
    by (cases "leave_previous st sid") auto
  note lp = leave_previous_inv [OF assms(1) l]
  define st' where "st' = nodeMap_set sid \<lparr>nodeId = nid, streamId = None\<rparr> st1"
  have res: "fst (stream_leave st sid nid) = st'"
    using Some l by (simp add: stream_leave_eq st'_def)
  have 1: "inv_sockets st'"
    using inv_socketsD [OF assms(1)] assms(2) by (auto simp: inv_sockets_def st'_def lp(1,2))
  have 2: "inv_current st'"
    unfolding inv_current_def
  proof (intro allI impI)
    fix x n k
    assume a: "map_of (nodeMap st') x = Some n \<and> streamId n = Some k"
    then have "x \<noteq> sid" by (auto simp: st'_def split: if_splits)
    then show "k \<noteq> [] \<and> member_of st' x k"
      using a inv_currentD [OF assms(1), of x n k] by (simp add: st'_def lp(1,3))
  qed
  have 3: "inv_member st'"
    unfolding inv_member_def
  proof (intro allI impI)
    fix x k
    assume "member_of st' x k"
    then have "member_of st x k" "x \<noteq> sid" by (simp_all add: st'_def lp(3))
    then show "\<exists>n. map_of (nodeMap st') x = Some n \<and> streamId n = Some k"
      using inv_memberD [OF assms(1), of x k] by (simp add: st'_def lp(1))
  qed
  have 4: "inv_rooms st'" using lp(5) by (simp add: inv_rooms_def st'_def)
  have 5: "inv_names st'" using lp(6) by (simp add: inv_names_def st'_def)
  have 6: "inv_keys st'"
    using inv_keysD [OF assms(1)] lp(4) [of "[]"] by (simp add: inv_keys_def st'_def)
  show ?thesis using 1 2 3 4 5 6 by (simp add: server_inv_def res)
qed

lemma socket_close_simps [simp]:
  "streams (socket_close sid st) = streams st"
  "nodeMap (socket_close sid st) = nodeMap st"
  "room_members (rooms (socket_close sid st)) r = Set_delete sid (room_members (rooms st) r)"
  "map_of (sockets (socket_close sid st)) x = (if x = sid then None else map_of (sockets st) x)"
  "member_of (socket_close sid st) = member_of st"
  "currentStream (socket_close sid st) = currentStream st"
  by (simp_all add: socket_close_def delete_conv' currentStream_def fun_eq_iff)

lemma detached_simps [simp]:
  "nodeMap (detached sid st) = nodeMap st"
  "sockets (detached sid st) = sockets (socket_close sid st)"
  "rooms (detached sid st) = rooms (socket_close sid st)"
  by (simp_all add: detached_def split: option.splits)

lemma disconnect_socket_close:
  assumes "server_inv st" and "map_of (sockets st) sid = Some nid"
  shows "fst (disconnect (socket_close sid st) sid) = nodeMap_delete sid (detached sid st)"
proof -
  obtain n where n: "map_of (nodeMap st) sid = Some n"
    using inv_socketsD [OF assms(1), of sid] assms(2) by (cases "map_of (nodeMap st) sid") auto
  show ?thesis
  proof (cases "currentStream st sid")
    case None
    then show ?thesis using n by (simp add: disconnect_def detached_def)
  next
    case (Some key)
    then obtain s where s: "map_of (streams st) key = Some s"
      using current_member(1) [OF assms(1) Some] by (auto simp: member_of_def split: option.splits)
    then show ?thesis using n Some by (simp add: disconnect_def detached_def Let_def)
  qed
qed

lemma member_of_detached:
  assumes "server_inv st"
  shows "member_of (detached sid st) x k = (member_of st x k \<and> x \<noteq> sid)"
proof (cases "currentStream st sid")
  case None
  then show ?thesis
    using no_current_no_member [OF assms None, of k] by (auto simp: detached_def)
next
  case (Some key)
  then show ?thesis
    using current_member(2) [OF assms Some, of k] by (auto simp: detached_def)
qed

lemma streams_detached_None:
  "(map_of (streams (detached sid st)) k = None) = (map_of (streams st) k = None)"
  by (simp add: detached_def split: option.splits)

lemma streams_detached_Some:
  assumes "server_inv st" and "map_of (streams (detached sid st)) k = Some s'"
  shows "\<exists>s. map_of (streams st) k = Some s \<and> set (nodes s') = set (nodes s) - {sid}"
proof -
  obtain s where s: "map_of (streams st) k = Some s"
    using streams_detached_None [of sid st k] assms(2) by (cases "map_of (streams st) k") auto
  have "x \<in> set (nodes s') \<longleftrightarrow> x \<in> set (nodes s) \<and> x \<noteq> sid" for x
    using member_of_detached [OF assms(1), of sid x k] assms(2) s by (simp add: member_of_def)
  then show ?thesis using s by auto
qed

lemma inv_disconnect:
  assumes "server_inv st" and "map_of (sockets st) sid = Some nid"
  shows "server_inv (fst (disconnect (socket_close sid st) sid))"
proof -
  define st' where "st' = nodeMap_delete sid (detached sid st)"
  have res: "fst (disconnect (socket_close sid st) sid) = st'"
    using disconnect_socket_close [OF assms] by (simp add: st'_def)
  have mem: "member_of st' x k = (member_of st x k \<and> x \<noteq> sid)" for x k
    by (simp add: st'_def member_of_detached [OF assms(1)])
  have 1: "inv_sockets st'"
    using inv_socketsD [OF assms(1)] by (simp add: inv_sockets_def st'_def)
  have 2: "inv_current st'"
    unfolding inv_current_def
  proof (intro allI impI)
    fix x n k
    assume a: "map_of (nodeMap st') x = Some n \<and> streamId n = Some k"
    then have "x \<noteq> sid" "map_of (nodeMap st) x = Some n"
      by (auto simp: st'_def split: if_splits)
    then show "k \<noteq> [] \<and> member_of st' x k"
      using a inv_currentD [OF assms(1), of x n k] by (simp add: mem)
  qed
  have 3: "inv_member st'"
    unfolding inv_member_def
  proof (intro allI impI)
    fix x k
    assume "member_of st' x k"
    then have "member_of st x k" "x \<noteq> sid" by (simp_all add: mem)
    then show "\<exists>n. map_of (nodeMap st') x = Some n \<and> streamId n = Some k"
      using inv_memberD [OF assms(1), of x k] by (simp add: st'_def)
  qed
  have 4: "inv_rooms st'"
    unfolding inv_rooms_def
  proof (intro allI impI)
    fix k s'
    assume "map_of (streams st') k = Some s'"
    then have "map_of (streams (detached sid st)) k = Some s'" by (simp add: st'_def)
    then obtain s where s: "map_of (streams st) k = Some s" "set (nodes s') = set (nodes s) - {sid}"
      using streams_detached_Some [OF assms(1)] by blast
    then show "distinct (room_members (rooms st') k) \<and>
        set (room_members (rooms st') k) = set (nodes s') \<and> map_of (sockets st') k = None"
      using inv_roomsD [OF assms(1) s(1)] by (simp add: st'_def)
  qed
  have 5: "inv_names st'"
    unfolding inv_names_def
  proof (intro allI impI)
    fix r x
    assume "x \<in> set (room_members (rooms st') r)"
    then have "x \<in> set (room_members (rooms st) r)" "x \<noteq> sid" by (simp_all add: st'_def)
    then show "map_of (streams st') r \<noteq> None \<or> (x = r \<and> map_of (sockets st') r \<noteq> None)"
      using inv_names_memD [OF assms(1), of x r] streams_detached_None [of sid st r]
      by (auto simp: st'_def)
  qed
  have 6: "inv_keys st'"
    using inv_keysD [OF assms(1)] streams_detached_None [of sid st "[]"]
    by (simp add: inv_keys_def st'_def)
  show ?thesis using 1 2 3 4 5 6 by (simp add: server_inv_def res)
qed

lemma log_push_state: "log_push st sid data now = Inr (st', out) \<Longrightarrow> st' = st"
  by (auto simp: log_push_def Let_def split: option.splits if_splits)

lemma inv_init: "server_inv init"
  by (simp add: server_inv_def inv_sockets_def inv_current_def inv_member_def inv_rooms_def
      inv_names_def inv_keys_def init_def member_of_def room_members_def)

lemma inv_step:
  assumes "server_inv st" and "fresh st ev" and "step st ev = Inr (st', out)"
  shows "server_inv st'"
proof (cases ev)
  case (Connection sid uuid)
  then show ?thesis using assms inv_connection [of st sid uuid] by auto
next
  case (StreamCreate sid data uuid now)
  then show ?thesis using assms inv_stream_create [of st uuid sid _ data now st' out]
    by (auto split: option.splits)
next
  case (StreamJoin sid data)
  then show ?thesis using assms inv_stream_join [of st sid _ data st' out]
    by (auto split: option.splits)
next
  case (StreamLeave sid)
  then show ?thesis using assms inv_stream_leave [of st sid]
    by (auto split: option.splits)
next
  case (LogPush sid data now)
  then show ?thesis using assms log_push_state [of st sid data now st' out]
    by (auto split: option.splits)
next
  case (StreamList sid)
  then show ?thesis using assms by (auto simp: stream_list_def split: option.splits)
next
  case (Disconnect sid)
  then show ?thesis using assms inv_disconnect [of st sid]
    by (auto simp: socket_close_def split: option.splits)
qed

lemma inv_run:
  assumes "server_inv st" and "fresh_run st evs" and "run st evs = (st', out, r)"
  shows "server_inv st'"
  using assms
proof (induction evs arbitrary: st out)
  case Nil
  then show ?case by simp
next
  case (Cons ev evs)
  show ?case
  proof (cases "step st ev")
    case (Inl e)
    then show ?thesis using Cons.prems by simp
  next
    case (Inr p)
    obtain st1 out1 where p: "p = (st1, out1)" by (cases p)
    obtain out2 where "run st1 evs = (st', out2, r)"
      using Cons.prems(3) Inr p by (auto split: prod.splits)
    moreover have "server_inv st1"
    proof (rule inv_step [OF Cons.prems(1)])
      show "fresh st ev" using Cons.prems(2) by simp
      show "step st ev = Inr (st1, out1)" using Inr p by simp
    qed
    moreover have "fresh_run st1 evs" using Cons.prems(2) Inr p by simp
    ultimately show ?thesis using Cons.IH by blast
  qed
qed

subsection \<open>Facts about requests\<close>

lemma truthy_text: "text_or_absent v \<Longrightarrow> truthy v = (\<not> absent_or_empty v)"
  by (cases v) (simp_all add: absent_or_empty_def)

lemma update_fresh: "map_of al k = None \<Longrightarrow> AList.update k v al = al @ [(k, v)]"
  by (induction al) (auto split: if_splits)

lemma strict_eq_JStr: "strict_eq v (JStr t) = (v = JStr t)"
  by (cases v) auto

lemma inv_consistent: "server_inv st \<Longrightarrow> consistent st"
  unfolding consistent_def
proof (intro allI impI)
  fix sid n
  assume i: "server_inv st" and n: "map_of (nodeMap st) sid = Some n"
  show "case streamId n of None \<Rightarrow> \<forall>k. \<not> member_of st sid k
        | Some key \<Rightarrow> member_of st sid key \<and> (\<forall>k. member_of st sid k \<longrightarrow> k = key)"
  proof (cases "streamId n")
    case None
    then show ?thesis using inv_memberD [OF i, of sid] n by auto
  next
    case (Some key)
    then show ?thesis using inv_currentD [OF i n Some] inv_memberD [OF i, of sid] n by auto
  qed
qed

subsection \<open>Facts about pushes\<close>

lemma reachable_inv:
  assumes "fresh_run init evs" and "fst (run init evs) = st"
  shows "server_inv st"
proof -
  obtain out r where "run init evs = (st, out, r)"
    using assms(2) by (cases "run init evs") auto
  then show ?thesis using inv_run [OF inv_init assms(1)] by simp
qed

lemma no_member_no_current:
  assumes "server_inv st" and "\<forall>k. \<not> member_of st sid k"
  shows "currentStream st sid = None"
proof (cases "currentStream st sid")
  case None
  then show ?thesis .
next
  case (Some key)
  then show ?thesis using current_member(1) [OF assms(1) Some] assms(2) by simp
qed

lemma log_push_no_stream:
  "currentStream st sid = None \<Longrightarrow>
     log_push st sid data now = Inr (st, [socket_emit sid (LogPushFailed NoStream)])"
  by (simp add: log_push_def NoStream_def)

lemma log_push_empty_current:
  assumes "log_push st sid data now = Inr (st', out)"
    and "socket_emit sid (LogPushFailed EmptyPayload) \<in> set out"
  shows "\<exists>key. currentStream st sid = Some key"
  using assms
  by (cases "currentStream st sid")
     (auto simp: log_push_def socket_emit_def io_to_emit_def EmptyPayload_def Let_def split: if_splits)

lemma log_push_success:
  assumes "currentStream st sid = Some key" and "\<not> nullish data"
    and "truthy (get_prop data ''payload'')"
  shows "log_push st sid data now =
     Inr (st, [io_to_emit st key
                 (LogBroadcast key
                    (case map_of (nodeMap st) sid of None \<Rightarrow> [] | Some n \<Rightarrow> nodeId n)
                    (get_prop data ''payload'')
                    (if get_prop data ''level'' = JUndefined then JStr ''INFO''
                     else get_prop data ''level'') now),
               socket_emit sid LogPushOk])"
  using assms by (simp add: log_push_def Let_def)

subsection \<open>Streams stay registered\<close>

lemma keeps_refl: "keeps st st"
  by (simp add: keeps_def same_descriptor_def)

lemma keeps_trans: "keeps st st1 \<Longrightarrow> keeps st1 st2 \<Longrightarrow> keeps st st2"
proof -
  assume a: "keeps st st1" and b: "keeps st1 st2"
  show ?thesis
    unfolding keeps_def
  proof (intro allI impI)
    fix k s
    assume "map_of (streams st) k = Some s"
    then obtain s1 where s1: "map_of (streams st1) k = Some s1" "same_descriptor s s1"
      using a unfolding keeps_def by blast
    then obtain s2 where s2: "map_of (streams st2) k = Some s2" "same_descriptor s1 s2"
      using b unfolding keeps_def by blast
    have "same_descriptor s s2" using s1(2) s2(2) by (simp add: same_descriptor_def)
    then show "\<exists>s'. map_of (streams st2) k = Some s' \<and> same_descriptor s s'"
      using s2(1) by blast
  qed
qed

lemma keeps_same: "streams st' = streams st \<Longrightarrow> keeps st st'"
  by (simp add: keeps_def same_descriptor_def)

lemma keeps_nodes_delete: "keeps st (nodes_delete key sid st)"
  by (auto simp: keeps_def same_descriptor_def)

lemma keeps_nodes_add: "keeps st (nodes_add key sid st)"
  by (auto simp: keeps_def same_descriptor_def)

lemma keeps_leave_previous: "keeps st (fst (leave_previous st sid))"
proof -
  have "keeps st (socket_leave sid old (nodes_delete old sid st))" for old
    by (rule keeps_trans [OF keeps_nodes_delete keeps_same]) simp
  then show ?thesis
    by (auto simp: leave_previous_def Let_def keeps_refl split: option.splits)
qed

lemma keeps_stream_join:
  assumes "stream_join st sid nid data = Inr (st', out)"
  shows "keeps st st'"
  using stream_join_cases [OF assms]
proof
  assume "st' = st"
  then show ?thesis by (simp add: keeps_refl)
next
  assume "\<exists>key s st1 out1. map_of (streams st) key = Some s \<and> leave_previous st sid = (st1, out1) \<and>
       st' = nodeMap_set sid \<lparr>nodeId = nid, streamId = Some key\<rparr>
               (socket_join sid key (nodes_add key sid st1))"
  then obtain key st1 out1 where l: "leave_previous st sid = (st1, out1)"
    and st': "st' = nodeMap_set sid \<lparr>nodeId = nid, streamId = Some key\<rparr>
               (socket_join sid key (nodes_add key sid st1))"
    by blast
  have "keeps st st1" using keeps_leave_previous [of st sid] l by simp
  moreover have "keeps st1 (nodes_add key sid st1)" by (rule keeps_nodes_add)
  moreover have "keeps (nodes_add key sid st1) st'" by (rule keeps_same) (simp add: st')
  ultimately show ?thesis using keeps_trans by blast
qed

lemma keeps_stream_leave: "keeps st (fst (stream_leave st sid nid))"
proof (cases "currentStream st sid")
  case None
  then show ?thesis by (simp add: stream_leave_eq keeps_refl)
next
  case (Some key)
  obtain st1 out1 where l: "leave_previous st sid = (st1, out1)"
    by (cases "leave_previous st sid") auto
  have "keeps st st1" using keeps_leave_previous [of st sid] l by simp
  moreover have "keeps st1 (nodeMap_set sid \<lparr>nodeId = nid, streamId = None\<rparr> st1)"
    by (rule keeps_same) simp
  ultimately have "keeps st (nodeMap_set sid \<lparr>nodeId = nid, streamId = None\<rparr> st1)"
    by (rule keeps_trans)
  then show ?thesis using Some l by (simp add: stream_leave_eq)
qed

lemma keeps_disconnect: "keeps st (fst (disconnect st sid))"
proof -
  have "keeps st (nodeMap_delete sid st)" by (rule keeps_same) simp
  moreover have "keeps st (nodeMap_delete sid (nodes_delete key sid st))" for key
    by (rule keeps_trans [OF keeps_nodes_delete keeps_same]) simp
  ultimately show ?thesis
    by (auto simp: disconnect_def Let_def keeps_refl split: option.splits)
qed

lemma keeps_stream_create:
  assumes "stream_create st sid nid data uuid now = Inr (st', out)"
    and "map_of (streams st) uuid = None"
  shows "keeps st st'"
  using assms
  by (auto simp: stream_create_def Let_def keeps_def same_descriptor_def update_conv'
      split: if_splits)

lemma keeps_step:
  assumes "step st ev = Inr (st', out)"
    and "fresh st ev \<or> (\<forall>sid data uuid now. ev \<noteq> StreamCreate sid data uuid now)"
  shows "keeps st st'"
proof (cases ev)
  case (Connection sid uuid)
  have "streams st' = streams st"
    using assms(1) Connection by (auto simp: connection_def Let_def)
  then show ?thesis by (rule keeps_same)
next
  case (StreamCreate sid data uuid now)
  then show ?thesis using assms keeps_stream_create [of st sid _ data uuid now st' out]
    by (auto simp: keeps_refl split: option.splits)
next
  case (StreamJoin sid data)
  then show ?thesis using assms keeps_stream_join [of st sid _ data st' out]
    by (auto simp: keeps_refl split: option.splits)
next
  case (StreamLeave sid)
  show ?thesis
  proof (cases "map_of (sockets st) sid")
    case None
    then show ?thesis using assms StreamLeave by (simp add: keeps_refl)
  next
    case (Some nid)
    then have "st' = fst (stream_leave st sid nid)" using assms StreamLeave by simp
    then show ?thesis by (simp add: keeps_stream_leave)
  qed
next
  case (LogPush sid data now)
  then show ?thesis using assms log_push_state [of st sid data now st' out]
    by (auto simp: keeps_refl split: option.splits)
next
  case (StreamList sid)
  then show ?thesis using assms by (auto simp: stream_list_def keeps_refl split: option.splits)
next
  case (Disconnect sid)
  show ?thesis
  proof (cases "map_of (sockets st) sid")
    case None
    then show ?thesis using assms Disconnect by (simp add: keeps_refl)
  next
    case (Some nid)
    then have "st' = fst (disconnect (socket_close sid st) sid)" using assms Disconnect by simp
    moreover have "keeps st (socket_close sid st)" by (rule keeps_same) simp
    ultimately show ?thesis using keeps_trans [OF _ keeps_disconnect] by simp
  qed
qed

lemma fst_run_Cons:
  "step st ev = Inr (st1, out1) \<Longrightarrow> fst (run st (ev # evs)) = fst (run st1 evs)"
  by (cases "run st1 evs") simp

lemma keeps_run: "fresh_run st evs \<Longrightarrow> keeps st (fst (run st evs))"
proof (induction evs arbitrary: st)
  case Nil
  then show ?case by (simp add: keeps_refl)
next
  case (Cons ev evs)
  show ?case
  proof (cases "step st ev")
    case (Inl e)
    then show ?thesis by (simp add: keeps_refl)
  next
    case (Inr p)
    obtain st1 out1 where p: "p = (st1, out1)" by (cases p)
    have "keeps st st1" using keeps_step [of st ev st1 out1] Cons.prems Inr p by simp
    moreover have "keeps st1 (fst (run st1 evs))" using Cons.IH [of st1] Cons.prems Inr p by simp
    ultimately have "keeps st (fst (run st1 evs))" by (rule keeps_trans)
    then show ?thesis using Inr p fst_run_Cons [of st ev st1 out1 evs] by simp
  qed
qed

lemma keys_step:
  assumes "step st ev = Inr (st', out)"
  shows "fst ` set (streams st) \<subseteq> fst ` set (streams st')"
proof -
  have "fst ` set (streams st) = dom (map_of (streams st))" for st :: server
    by (simp add: dom_map_of_conv_image_fst)
  moreover have "map_of (streams st) k \<noteq> None \<Longrightarrow> map_of (streams st') k \<noteq> None" for k
  proof (cases ev)
    case (StreamCreate sid data uuid now)
    assume "map_of (streams st) k \<noteq> None"
    then show ?thesis using assms StreamCreate
      by (auto simp: stream_create_def Let_def update_conv' split: option.splits if_splits)
  next
    case (Connection sid uuid)
    assume "map_of (streams st) k \<noteq> None"
    then show ?thesis using keeps_step [OF assms] Connection unfolding keeps_def by blast
  next
    case (StreamJoin sid data)
    assume "map_of (streams st) k \<noteq> None"
    then show ?thesis using keeps_step [OF assms] StreamJoin unfolding keeps_def by blast
  next
    case (StreamLeave sid)
    assume "map_of (streams st) k \<noteq> None"
    then show ?thesis using keeps_step [OF assms] StreamLeave unfolding keeps_def by blast
  next
    case (LogPush sid data now)
    assume "map_of (streams st) k \<noteq> None"
    then show ?thesis using keeps_step [OF assms] LogPush unfolding keeps_def by blast
  next
    case (StreamList sid)
    assume "map_of (streams st) k \<noteq> None"
    then show ?thesis using keeps_step [OF assms] StreamList unfolding keeps_def by blast
  next
    case (Disconnect sid)
    assume "map_of (streams st) k \<noteq> None"
    then show ?thesis using keeps_step [OF assms] Disconnect unfolding keeps_def by blast
  qed
  ultimately show ?thesis by (auto simp: dom_def)
qed

lemma keys_run: "fst ` set (streams st) \<subseteq> fst ` set (streams (fst (run st evs)))"
proof (induction evs arbitrary: st)
  case Nil
  then show ?case by simp
next
  case (Cons ev evs)
  show ?case
  proof (cases "step st ev")
    case (Inl e)
    then show ?thesis by simp
  next
    case (Inr p)
    obtain st1 out1 where p: "p = (st1, out1)" by (cases p)
    have "fst ` set (streams st) \<subseteq> fst ` set (streams st1)"
      using keys_step [of st ev st1 out1] Inr p by simp
    then show ?thesis using Cons.IH [of st1] Inr p fst_run_Cons [of st ev st1 out1 evs] by auto
  qed
qed

subsection \<open>Facts about cleanup\<close>

lemma disconnect_twice: "disconnect (fst (disconnect st sid)) sid = (fst (disconnect st sid), [])"
proof (cases "map_of (nodeMap st) sid")
  case None
  then show ?thesis by (simp add: disconnect_def)
next
  case (Some n)
  then have "map_of (nodeMap (fst (disconnect st sid))) sid = None"
    by (simp add: disconnect_def Let_def split: option.splits prod.splits)
  then show ?thesis by (simp add: disconnect_def)
qed

lemma disconnect_out:
  assumes "server_inv st" and "map_of (sockets st) sid = Some nid"
  shows "snd (disconnect (socket_close sid st) sid) =
     (case currentStream st sid of
        None \<Rightarrow> []
      | Some key \<Rightarrow> [(Set_delete sid (room_members (rooms st) key),
                      NodeList key (getStreamNodes (detached sid st) key))])"
proof -
  obtain n where n: "map_of (nodeMap st) sid = Some n"
    using inv_socketsD [OF assms(1), of sid] assms(2) by (cases "map_of (nodeMap st) sid") auto
  show ?thesis
  proof (cases "currentStream st sid")
    case None
    then show ?thesis using n by (simp add: disconnect_def)
  next
    case (Some key)
    then obtain s where s: "map_of (streams st) key = Some s"
      using current_member(1) [OF assms(1) Some] by (auto simp: member_of_def split: option.splits)
    then show ?thesis using n Some
      by (simp add: disconnect_def detached_def Let_def broadcastNodeList_def io_to_emit_def)
  qed
qed

subsection \<open>Identifiers in the emissions of a run\<close>

lemma created_ids_simps [simp]:
  "created_ids [] = []"
  "created_ids (a @ b) = created_ids a @ created_ids b"
  "created_ids ((rcp, m) # out) =
     (case m of StreamCreateOk key n \<Rightarrow> [key] | _ \<Rightarrow> []) @ created_ids out"
  by (simp_all add: created_ids_def)

lemma assigned_ids_simps [simp]:
  "assigned_ids [] = []"
  "assigned_ids (a @ b) = assigned_ids a @ assigned_ids b"
  "assigned_ids ((rcp, m) # out) =
     (case m of NodeAssigned n \<Rightarrow> [n] | _ \<Rightarrow> []) @ assigned_ids out"
  by (simp_all add: assigned_ids_def)

lemma ids_leave_previous:
  "created_ids (snd (leave_previous st sid)) = []"
  "assigned_ids (snd (leave_previous st sid)) = []"
  by (simp_all add: leave_previous_def Let_def broadcastNodeList_def io_to_emit_def
      split: option.splits)

lemma ids_stream_join:
  assumes "stream_join st sid nid data = Inr (st', out)"
  shows "created_ids out = [] \<and> assigned_ids out = []"
proof -
  have "created_ids x = [] \<and> assigned_ids x = []" if "leave_previous st sid = (y, x)" for x y
    using ids_leave_previous [of st sid] that by simp
  then show ?thesis
    using assms
    by (auto simp: stream_join_def Let_def socket_emit_def broadcastNodeList_def io_to_emit_def
        split: if_splits option.splits prod.splits)
qed

lemma ids_stream_leave:
  "created_ids (snd (stream_leave st sid nid)) = [] \<and>
   assigned_ids (snd (stream_leave st sid nid)) = []"
proof -
  have "created_ids x = [] \<and> assigned_ids x = []" if "leave_previous st sid = (y, x)" for x y
    using ids_leave_previous [of st sid] that by simp
  then show ?thesis
    by (auto simp: stream_leave_eq socket_emit_def split: option.splits prod.splits)
qed

lemma ids_disconnect:
  "created_ids (snd (disconnect st sid)) = [] \<and> assigned_ids (snd (disconnect st sid)) = []"
  by (simp add: disconnect_def Let_def broadcastNodeList_def io_to_emit_def split: option.splits)

lemma ids_log_push:
  "log_push st sid data now = Inr (st', out) \<Longrightarrow> created_ids out = [] \<and> assigned_ids out = []"
  by (auto simp: log_push_def Let_def socket_emit_def io_to_emit_def split: option.splits if_splits)

lemma ids_stream_create:
  "stream_create st sid nid data uuid now = Inr (st', out) \<Longrightarrow>
     (created_ids out = [] \<or> created_ids out = [uuid]) \<and> assigned_ids out = []"
  by (auto simp: stream_create_def Let_def socket_emit_def split: if_splits)

lemma ids_step:
  assumes "step st ev = Inr (st', out)"
  shows "(created_ids out = [] \<or> created_ids out = create_uuid ev) \<and>
         assigned_ids out = map generateNodeId (connection_uuid ev)"
proof (cases ev)
  case (Connection sid uuid)
  then show ?thesis using assms by (auto simp: connection_def Let_def socket_emit_def)
next
  case (StreamCreate sid data uuid now)
  then show ?thesis using assms ids_stream_create [of st sid _ data uuid now st' out]
    by (auto split: option.splits)
next
  case (StreamJoin sid data)
  then show ?thesis using assms ids_stream_join [of st sid _ data st' out]
    by (auto split: option.splits)
next
  case (StreamLeave sid)
  show ?thesis
  proof (cases "map_of (sockets st) sid")
    case None
    then show ?thesis using assms StreamLeave by auto
  next
    case (Some nid)
    then have "out = snd (stream_leave st sid nid)" using assms StreamLeave by simp
    then show ?thesis using ids_stream_leave [of st sid nid] StreamLeave by simp
  qed
next
  case (LogPush sid data now)
  then show ?thesis using assms ids_log_push [of st sid data now st' out]
    by (auto split: option.splits)
next
  case (StreamList sid)
  then show ?thesis using assms by (auto simp: stream_list_def socket_emit_def split: option.splits)
next
  case (Disconnect sid)
  show ?thesis
  proof (cases "map_of (sockets st) sid")
    case None
    then show ?thesis using assms Disconnect by auto
  next
    case (Some nid)
    then have "out = snd (disconnect (socket_close sid st) sid)" using assms Disconnect by simp
    then show ?thesis using ids_disconnect [of "socket_close sid st" sid] Disconnect by simp
  qed
qed

lemma snd_run_Cons:
  "step st ev = Inr (st1, out1) \<Longrightarrow>
     fst (snd (run st (ev # evs))) = out1 @ fst (snd (run st1 evs))"
  by (cases "run st1 evs") simp

lemma created_run:
  "distinct (concat (map create_uuid evs)) \<Longrightarrow>
     distinct (created_ids (fst (snd (run st evs)))) \<and>
     set (created_ids (fst (snd (run st evs)))) \<subseteq> set (concat (map create_uuid evs))"
proof (induction evs arbitrary: st)
  case Nil
  then show ?case by simp
next
  case (Cons ev evs)
  show ?case
  proof (cases "step st ev")
    case (Inl e)
    then show ?thesis by simp
  next
    case (Inr p)
    obtain st1 out1 where p: "p = (st1, out1)" by (cases p)
    have o: "fst (snd (run st (ev # evs))) = out1 @ fst (snd (run st1 evs))"
      using snd_run_Cons [of st ev st1 out1 evs] Inr p by simp
    have 1: "created_ids out1 = [] \<or> created_ids out1 = create_uuid ev"
      using ids_step [of st ev st1 out1] Inr p by simp
    have 2: "distinct (created_ids (fst (snd (run st1 evs)))) \<and>
        set (created_ids (fst (snd (run st1 evs)))) \<subseteq> set (concat (map create_uuid evs))"
      using Cons.IH [of st1] Cons.prems by simp
    have 3: "distinct (create_uuid ev)" "set (create_uuid ev) \<inter> set (concat (map create_uuid evs)) = {}"
      using Cons.prems by auto
    show ?thesis using 1 2 3 unfolding o by auto
  qed
qed

lemma assigned_run:
  "\<exists>m. assigned_ids (fst (snd (run st evs))) =
         map generateNodeId (take m (concat (map connection_uuid evs)))"
proof (induction evs arbitrary: st)
  case Nil
  then show ?case by simp
next
  case (Cons ev evs)
  show ?case
  proof (cases "step st ev")
    case (Inl e)
    then have "assigned_ids (fst (snd (run st (ev # evs)))) =
        map generateNodeId (take 0 (concat (map connection_uuid (ev # evs))))"
      by simp
    then show ?thesis by blast
  next
    case (Inr p)
    obtain st1 out1 where p: "p = (st1, out1)" by (cases p)
    have o: "fst (snd (run st (ev # evs))) = out1 @ fst (snd (run st1 evs))"
      using snd_run_Cons [of st ev st1 out1 evs] Inr p by simp
    have 1: "assigned_ids out1 = map generateNodeId (connection_uuid ev)"
      using ids_step [of st ev st1 out1] Inr p by simp
    obtain m where 2: "assigned_ids (fst (snd (run st1 evs))) =
        map generateNodeId (take m (concat (map connection_uuid evs)))"
      using Cons.IH [of st1] by blast
    have "assigned_ids (fst (snd (run st (ev # evs)))) =
        map generateNodeId (take (length (connection_uuid ev) + m)
          (concat (map connection_uuid (ev # evs))))"
      unfolding o using 1 2 by simp
    then show ?thesis by blast
  qed
qed

lemma distinct_generateNodeId:
  "distinct (map generateNodeId us) = distinct (map (take 8) us)"
proof -
  have "map generateNodeId us = map ((@) ''node-'') (map (take 8) us)"
    by (simp add: generateNodeId_def)
  moreover have "inj_on ((@) ''node-'') A" for A :: "string set"
    by (rule inj_onI) simp
  ultimately show ?thesis by (simp add: distinct_map del: map_map)
qed

lemma distinct_uuids_create: "distinct (uuids evs) \<Longrightarrow> distinct (concat (map create_uuid evs))"
proof (induction evs)
  case Nil
  then show ?case by simp
next
  case (Cons ev evs)
  have "set (concat (map create_uuid evs)) \<subseteq> set (uuids evs)"
    by (auto simp: uuids_def)
  then show ?case using Cons by (auto simp: uuids_def)
qed

lemma assigned_run_total:
  "snd (snd (run st evs)) = None \<Longrightarrow>
     assigned_ids (fst (snd (run st evs))) = map generateNodeId (concat (map connection_uuid evs))"
proof (induction evs arbitrary: st)
  case Nil
  then show ?case by simp
next
  case (Cons ev evs)
  show ?case
  proof (cases "step st ev")
    case (Inl e)
    then show ?thesis using Cons.prems by simp
  next
    case (Inr p)
    obtain st1 out1 where p: "p = (st1, out1)" by (cases p)
    have o: "fst (snd (run st (ev # evs))) = out1 @ fst (snd (run st1 evs))"
      using snd_run_Cons [of st ev st1 out1 evs] Inr p by simp
    have "snd (snd (run st1 evs)) = None"
      using Cons.prems Inr p by (cases "run st1 evs") simp
    then have "assigned_ids (fst (snd (run st1 evs))) =
        map generateNodeId (concat (map connection_uuid evs))"
      by (rule Cons.IH)
    moreover have "assigned_ids out1 = map generateNodeId (connection_uuid ev)"
      using ids_step [of st ev st1 out1] Inr p by simp
    ultimately show ?thesis unfolding o by simp
  qed
qed

section \<open>The claims\<close>

text \<open>
  C1. After every completed operation, for every connection registered in the connection
  registry, \<open>streamId\<close> is non-null if and only if the connection is in the member set of
  the stream with that id, and the connection is in at most one member set. Stated for
  the state after any sequence of events whose identifiers are fresh: a null
  \<open>streamId\<close> means the connection is in no member set, a \<open>streamId\<close> of \<open>key\<close> means
  it is in the member set of \<open>key\<close> and of no other stream.
\<close>

theorem membership_consistent:
  assumes "fresh_run init evs"
  shows "consistent (fst (run init evs))"
proof -
  obtain st out r where "run init evs = (st, out, r)" by (cases "run init evs") auto
  then show ?thesis using inv_run [OF inv_init assms] inv_consistent by simp
qed

theorem membership_consistent_witness:
  "fresh_run init one_member \<and> fst (run init one_member) = one_member_state \<and>
   consistent one_member_state"
proof -
  have h: "fresh_run init one_member" by code_simp
  have e: "fst (run init one_member) = one_member_state" by code_simp
  show ?thesis using h e membership_consistent [OF h] by simp
qed

text \<open>
  C2. For every connection and every join request (stream id, token): the join succeeds
  if and only if a stream with that id is registered and its stored token equals the
  supplied one; when the stream is absent the result is the NotFound failure, when the
  token differs it is the Unauthorized failure, and in both failure cases the state
  (both registries included) is unchanged.
\<close>

theorem join_authorization:
  assumes "get_prop data ''streamId'' = JStr key"
    and "get_prop data ''passwordHash'' = JStr token"
  shows "\<exists>st' out. stream_join st sid nid data = Inr (st', out) \<and>
     ((\<exists>n. socket_emit sid (StreamJoinOk key n) \<in> set out) =
        (\<exists>s. map_of (streams st) key = Some s \<and> passwordHash s = JStr token)) \<and>
     (map_of (streams st) key = None \<longrightarrow>
        st' = st \<and> out = [socket_emit sid (StreamJoinFailed NotFound)]) \<and>
     (\<forall>s. map_of (streams st) key = Some s \<and> passwordHash s \<noteq> JStr token \<longrightarrow>
        st' = st \<and> out = [socket_emit sid (StreamJoinFailed Unauthorized)])"
proof -
  have nn: "\<not> nullish data" using assms(1) by (cases data) auto
  show ?thesis
  proof (cases "map_of (streams st) key")
    case None
    then show ?thesis using nn assms
      by (simp add: stream_join_def NotFound_def socket_emit_def)
  next
    case (Some s)
    show ?thesis
    proof (cases "passwordHash s = JStr token")
      case True
      then show ?thesis using nn assms Some
        by (auto simp add: stream_join_def strict_eq_JStr Let_def split: prod.splits)
    next
      case False
      then show ?thesis using nn assms Some
        by (simp add: stream_join_def strict_eq_JStr Unauthorized_def socket_emit_def)
    qed
  qed
qed

theorem join_authorization_witness:
  "get_prop (JObj [(''streamId'', JStr ''S1''), (''passwordHash'', JStr ''wrong'')]) ''streamId'' =
     JStr ''S1'' \<and>
   get_prop (JObj [(''streamId'', JStr ''S1''), (''passwordHash'', JStr ''wrong'')]) ''passwordHash'' =
     JStr ''wrong'' \<and>
   map_of (streams created_state) ''S1'' =
     Some \<lparr>stream_id = ''S1'', name = JStr ''alpha'', passwordHash = JStr ''t1'',
            createdAt = 5, nodes = []\<rparr> \<and>
   stream_join created_state ''a'' ''node-u1''
     (JObj [(''streamId'', JStr ''S1''), (''passwordHash'', JStr ''wrong'')]) =
     Inr (created_state, [socket_emit ''a'' (StreamJoinFailed Unauthorized)])"
proof -
  have h1: "get_prop (JObj [(''streamId'', JStr ''S1''), (''passwordHash'', JStr ''wrong'')])
      ''streamId'' = JStr ''S1''"
    by simp
  have h2: "get_prop (JObj [(''streamId'', JStr ''S1''), (''passwordHash'', JStr ''wrong'')])
      ''passwordHash'' = JStr ''wrong''"
    by simp
  have h3: "map_of (streams created_state) ''S1'' =
     Some \<lparr>stream_id = ''S1'', name = JStr ''alpha'', passwordHash = JStr ''t1'',
            createdAt = 5, nodes = []\<rparr>"
    by (simp add: created_state_def)
  show ?thesis
    using h1 h2 h3 join_authorization [OF h1 h2, of created_state "''a''" "''node-u1''"]
    by auto
qed

text \<open>
  C3. For every successful push by a member of a stream, the log broadcast is emitted
  once, to exactly the connections in that stream's member set at that moment, the sender
  among them, each once, and to no other connection; the message carries the stream id,
  the sender's node id, the pushed payload, the supplied level (\<open>INFO\<close> when the level
  is absent) and the timestamp the server took. Stated for any state reached by events
  with fresh identifiers.
\<close>

theorem fanout:
  assumes "fresh_run init evs" and "fst (run init evs) = st"
    and "log_push st sid data now = Inr (st', out)"
    and "socket_emit sid LogPushOk \<in> set out"
  shows "\<exists>key s n rcp.
           map_of (streams st) key = Some s \<and>
           map_of (nodeMap st) sid = Some n \<and> streamId n = Some key \<and>
           map_of (sockets st) sid = Some (nodeId n) \<and>
           out = [(rcp, LogBroadcast key (nodeId n) (get_prop data ''payload'')
                          (if get_prop data ''level'' = JUndefined then JStr ''INFO''
                           else get_prop data ''level'') now),
                  socket_emit sid LogPushOk] \<and>
           distinct rcp \<and> set rcp = set (nodes s) \<and> sid \<in> set rcp \<and> st' = st"
proof -
  note i = reachable_inv [OF assms(1,2)]
  obtain key where c: "currentStream st sid = Some key"
    using assms(3,4) by (cases "currentStream st sid") (auto simp: log_push_def socket_emit_def)
  have nn: "\<not> nullish data"
    using assms(3) c by (auto simp: log_push_def)
  have t: "truthy (get_prop data ''payload'')"
    using assms(3,4) c nn by (auto simp: log_push_def Let_def socket_emit_def split: if_splits)
  obtain n where n: "map_of (nodeMap st) sid = Some n" "streamId n = Some key"
    using c by (auto simp: currentStream_def split: option.splits if_splits)
  have m: "member_of st sid key" using current_member(1) [OF i c] .
  then obtain s where s: "map_of (streams st) key = Some s" "sid \<in> set (nodes s)"
    by (auto simp: member_of_def split: option.splits)
  note r = inv_roomsD [OF i s(1)]
  have so: "map_of (sockets st) sid = Some (nodeId n)"
    using inv_socketsD [OF i, of sid] n(1) by simp
  have "out = [(room_members (rooms st) key,
                LogBroadcast key (nodeId n) (get_prop data ''payload'')
                  (if get_prop data ''level'' = JUndefined then JStr ''INFO''
                   else get_prop data ''level'') now),
               socket_emit sid LogPushOk] \<and> st' = st"
    using log_push_success [OF c nn t, of now] assms(3) n(1) by (simp add: io_to_emit_def)
  then show ?thesis using s n so r by blast
qed

theorem fanout_witness:
  "fresh_run init two_members \<and> fst (run init two_members) = two_members_state \<and>
   log_push two_members_state ''a'' (JObj [(''payload'', JStr ''p1'')]) 9 =
     Inr (two_members_state,
          [([''a'', ''b''], LogBroadcast ''S1'' ''node-u1'' (JStr ''p1'') (JStr ''INFO'') 9),
           socket_emit ''a'' LogPushOk]) \<and>
   socket_emit ''a'' LogPushOk \<in> set
     [([''a'', ''b''], LogBroadcast ''S1'' ''node-u1'' (JStr ''p1'') (JStr ''INFO'') 9),
      socket_emit ''a'' LogPushOk]"
proof -
  have h1: "fresh_run init two_members" by code_simp
  have h2: "fst (run init two_members) = two_members_state" by code_simp
  have h3: "log_push two_members_state ''a'' (JObj [(''payload'', JStr ''p1'')]) 9 =
     Inr (two_members_state,
          [([''a'', ''b''], LogBroadcast ''S1'' ''node-u1'' (JStr ''p1'') (JStr ''INFO'') 9),
           socket_emit ''a'' LogPushOk])"
    by code_simp
  have h4: "socket_emit ''a'' LogPushOk \<in> set
     [([''a'', ''b''], LogBroadcast ''S1'' ''node-u1'' (JStr ''p1'') (JStr ''INFO'') 9),
      socket_emit ''a'' LogPushOk]"
    by simp
  show ?thesis using h1 h2 h3 h4 fanout [OF h1 h2 h3 h4] by simp
qed

text \<open>
  C4, as the code has it. The stream ids returned by creates are the generated UUIDs, so
  they are pairwise distinct whenever the UUIDs generated during the run are. A node id is
  \<open>node-\<close> followed by the first 8 characters of the UUID generated at connection, and
  nothing compares it with earlier ones: the node ids assigned are pairwise distinct
  exactly when those 8-character prefixes are.
\<close>

theorem identifiers_from_uuids:
  assumes "distinct (uuids evs)"
  shows "distinct (created_ids (fst (snd (run st evs)))) \<and>
         (\<exists>m. assigned_ids (fst (snd (run st evs))) =
                map generateNodeId (take m (concat (map connection_uuid evs))) \<and>
              distinct (assigned_ids (fst (snd (run st evs)))) =
                distinct (map (take 8) (take m (concat (map connection_uuid evs))))) \<and>
         (snd (snd (run st evs)) = None \<longrightarrow>
            assigned_ids (fst (snd (run st evs))) =
              map generateNodeId (concat (map connection_uuid evs)))"
proof -
  have "distinct (created_ids (fst (snd (run st evs))))"
    using created_run [OF distinct_uuids_create [OF assms], of st] by simp
  moreover obtain m where "assigned_ids (fst (snd (run st evs))) =
      map generateNodeId (take m (concat (map connection_uuid evs)))"
    using assigned_run [of st evs] by blast
  ultimately show ?thesis using distinct_generateNodeId assigned_run_total by metis
qed

theorem identifiers_from_uuids_witness:
  "distinct (uuids
     [Connection ''a'' ''u1'', StreamCreate ''a'' alpha_request ''S1'' 5,
      StreamCreate ''a'' alpha_request ''S2'' 6]) \<and>
   created_ids (fst (snd (run init
     [Connection ''a'' ''u1'', StreamCreate ''a'' alpha_request ''S1'' 5,
      StreamCreate ''a'' alpha_request ''S2'' 6]))) = [''S1'', ''S2''] \<and>
   distinct (created_ids (fst (snd (run init
     [Connection ''a'' ''u1'', StreamCreate ''a'' alpha_request ''S1'' 5,
      StreamCreate ''a'' alpha_request ''S2'' 6]))))"
proof -
  have h: "distinct (uuids
     [Connection ''a'' ''u1'', StreamCreate ''a'' alpha_request ''S1'' 5,
      StreamCreate ''a'' alpha_request ''S2'' 6])"
    by code_simp
  have e: "created_ids (fst (snd (run init
     [Connection ''a'' ''u1'', StreamCreate ''a'' alpha_request ''S1'' 5,
      StreamCreate ''a'' alpha_request ''S2'' 6]))) = [''S1'', ''S2'']"
    by code_simp
  show ?thesis using h e identifiers_from_uuids [OF h, of init] by simp
qed

text \<open>
  C4, as stated, fails for node ids: two connections whose UUIDs differ only after the
  eighth character are assigned the same node id.
\<close>

theorem node_ids_collide:
  "distinct (uuids
     [Connection ''a'' ''aaaaaaaa-0000-4000-8000-000000000000'',
      Connection ''b'' ''aaaaaaaa-0000-4000-8000-000000000001'']) \<and>
   fresh_run init
     [Connection ''a'' ''aaaaaaaa-0000-4000-8000-000000000000'',
      Connection ''b'' ''aaaaaaaa-0000-4000-8000-000000000001''] \<and>
   fst (snd (run init
     [Connection ''a'' ''aaaaaaaa-0000-4000-8000-000000000000'',
      Connection ''b'' ''aaaaaaaa-0000-4000-8000-000000000001''])) =
     [([''a''], NodeAssigned ''node-aaaaaaaa''), ([''b''], NodeAssigned ''node-aaaaaaaa'')] \<and>
   \<not> distinct (assigned_ids (fst (snd (run init
     [Connection ''a'' ''aaaaaaaa-0000-4000-8000-000000000000'',
      Connection ''b'' ''aaaaaaaa-0000-4000-8000-000000000001'']))))"
  by code_simp

text \<open>
  C5. For every create request: if the name or the credential token is missing or empty
  the operation fails with the InvalidRequest error and the stream registry (the whole
  state) is unchanged; otherwise it succeeds, appends one new stream under the generated
  id whatever the names already registered, with an empty member set and the supplied
  token, returns that id, and leaves the connection registry as it was, so the creator
  is not joined.
\<close>

theorem create_request:
  assumes "\<not> nullish data"
    and "text_or_absent (get_prop data ''streamName'')"
    and "text_or_absent (get_prop data ''passwordHash'')"
    and "map_of (streams st) uuid = None"
  shows "stream_create st sid nid data uuid now =
     (if absent_or_empty (get_prop data ''streamName'') \<or>
         absent_or_empty (get_prop data ''passwordHash'')
      then Inr (st, [socket_emit sid (StreamCreateFailed InvalidRequest)])
      else Inr (st\<lparr>streams := streams st @
                  [(uuid, \<lparr>stream_id = uuid, name = get_prop data ''streamName'',
                           passwordHash = get_prop data ''passwordHash'',
                           createdAt = now, nodes = []\<rparr>)]\<rparr>,
                [socket_emit sid (StreamCreateOk uuid (get_prop data ''streamName''))]))"
proof -
  have a: "truthy (get_prop data ''streamName'') =
      (\<not> absent_or_empty (get_prop data ''streamName''))"
    by (rule truthy_text [OF assms(2)])
  have b: "truthy (get_prop data ''passwordHash'') =
      (\<not> absent_or_empty (get_prop data ''passwordHash''))"
    by (rule truthy_text [OF assms(3)])
  show ?thesis
    using assms(1,4) by (simp add: stream_create_def a b update_fresh InvalidRequest_def Let_def)
qed

theorem create_request_witness:
  "\<not> nullish (JObj [(''streamName'', JStr ''alpha''), (''passwordHash'', JStr ''t2'')]) \<and>
   text_or_absent
     (get_prop (JObj [(''streamName'', JStr ''alpha''), (''passwordHash'', JStr ''t2'')])
        ''streamName'') \<and>
   text_or_absent
     (get_prop (JObj [(''streamName'', JStr ''alpha''), (''passwordHash'', JStr ''t2'')])
        ''passwordHash'') \<and>
   map_of (streams created_state) ''S2'' = None \<and>
   stream_create created_state ''a'' ''node-u1''
     (JObj [(''streamName'', JStr ''alpha''), (''passwordHash'', JStr ''t2'')]) ''S2'' 7 =
   Inr (created_state\<lparr>streams := streams created_state @
          [(''S2'', \<lparr>stream_id = ''S2'', name = JStr ''alpha'', passwordHash = JStr ''t2'',
                   createdAt = 7, nodes = []\<rparr>)]\<rparr>,
        [socket_emit ''a'' (StreamCreateOk ''S2'' (JStr ''alpha''))])"
proof -
  have h1: "\<not> nullish (JObj [(''streamName'', JStr ''alpha''), (''passwordHash'', JStr ''t2'')])"
    by simp
  have h2: "text_or_absent
     (get_prop (JObj [(''streamName'', JStr ''alpha''), (''passwordHash'', JStr ''t2'')])
        ''streamName'')"
    by simp
  have h3: "text_or_absent
     (get_prop (JObj [(''streamName'', JStr ''alpha''), (''passwordHash'', JStr ''t2'')])
        ''passwordHash'')"
    by simp
  have h4: "map_of (streams created_state) ''S2'' = None"
    by (simp add: created_state_def)
  show ?thesis
    using h1 h2 h3 h4 create_request [OF h1 h2 h3 h4, of "''a''" "''node-u1''" 7]
    by (simp add: absent_or_empty_def)
qed

text \<open>
  C6. For every push request: it fails with the NoStream error if and only if the sending
  connection is in no stream's member set, and, when it is in one, it fails with the
  EmptyPayload error if and only if the payload is empty or absent; the state (both
  registries included) is unchanged, and a push that does not succeed emits the one
  failure result and no broadcast. Stated for a request whose data is an object with a
  text-or-absent payload, in any state reached by events with fresh identifiers.
\<close>

theorem push_failures:
  assumes "fresh_run init evs" and "fst (run init evs) = st"
    and "\<not> nullish data" and "text_or_absent (get_prop data ''payload'')"
  shows "\<exists>out. log_push st sid data now = Inr (st, out) \<and>
     ((socket_emit sid (LogPushFailed NoStream) \<in> set out) = (\<forall>k. \<not> member_of st sid k)) \<and>
     ((\<exists>k. member_of st sid k) \<longrightarrow>
        (socket_emit sid (LogPushFailed EmptyPayload) \<in> set out) =
          absent_or_empty (get_prop data ''payload'')) \<and>
     (socket_emit sid LogPushOk \<notin> set out \<longrightarrow>
        out = [socket_emit sid (LogPushFailed NoStream)] \<or>
        out = [socket_emit sid (LogPushFailed EmptyPayload)])"
proof (cases "currentStream st sid")
  case None
  have "\<forall>k. \<not> member_of st sid k"
    using no_current_no_member [OF reachable_inv [OF assms(1,2)] None] by simp
  then show ?thesis using log_push_no_stream [OF None, of data now] by simp
next
  case (Some key)
  have m: "member_of st sid key"
    using current_member(1) [OF reachable_inv [OF assms(1,2)] Some] .
  have t: "truthy (get_prop data ''payload'') = (\<not> absent_or_empty (get_prop data ''payload''))"
    by (rule truthy_text [OF assms(4)])
  show ?thesis
  proof (cases "absent_or_empty (get_prop data ''payload'')")
    case True
    then have "log_push st sid data now = Inr (st, [socket_emit sid (LogPushFailed EmptyPayload)])"
      using Some assms(3) t by (simp add: log_push_def EmptyPayload_def Let_def)
    then show ?thesis using m True
      by (auto simp: socket_emit_def NoStream_def EmptyPayload_def)
  next
    case False
    then have "truthy (get_prop data ''payload'')" using t by simp
    then show ?thesis using m False log_push_success [OF Some assms(3), of now]
      by (auto simp: socket_emit_def io_to_emit_def)
  qed
qed

theorem push_failures_witness:
  "fresh_run init one_member \<and> fst (run init one_member) = one_member_state \<and>
   \<not> nullish (JObj [(''payload'', JStr [])]) \<and>
   text_or_absent (get_prop (JObj [(''payload'', JStr [])]) ''payload'') \<and>
   member_of one_member_state ''a'' ''S1'' \<and>
   (\<exists>out. log_push one_member_state ''a'' (JObj [(''payload'', JStr [])]) 9 =
            Inr (one_member_state, out) \<and>
          socket_emit ''a'' (LogPushFailed EmptyPayload) \<in> set out \<and>
          socket_emit ''a'' (LogPushFailed NoStream) \<notin> set out)"
proof -
  have h1: "fresh_run init one_member" by code_simp
  have h2: "fst (run init one_member) = one_member_state" by code_simp
  have h3: "\<not> nullish (JObj [(''payload'', JStr [])])" by simp
  have h4: "text_or_absent (get_prop (JObj [(''payload'', JStr [])]) ''payload'')" by simp
  have m: "member_of one_member_state ''a'' ''S1''"
    by (simp add: member_of_def one_member_state_def)
  show ?thesis
    using h1 h2 h3 h4 m push_failures [OF h1 h2 h3 h4, of "''a''" 9]
    by (auto simp: absent_or_empty_def)
qed

text \<open>
  C7. For every inbound event with a malformed payload the handler never throws. The
  code does throw: \<open>stream:create\<close> and \<open>stream:join\<close> destructure \<open>data\<close> in their
  first statement, and \<open>log:push\<close> does so once the sender has a stream, so an event
  sent without an argument (or with \<open>null\<close>) raises a TypeError in each of the three.
\<close>

theorem malformed_data_throws:
  "run init [Connection ''a'' ''u1'', StreamCreate ''a'' JUndefined ''S1'' 5] =
     (one_connected_state, [([''a''], NodeAssigned ''node-u1'')], Some TypeError) \<and>
   run init [Connection ''a'' ''u1'', StreamJoin ''a'' JNull] =
     (one_connected_state, [([''a''], NodeAssigned ''node-u1'')], Some TypeError) \<and>
   fst (run init one_member) = one_member_state \<and>
   log_push one_member_state ''a'' JUndefined 9 = Inl TypeError \<and>
   snd (snd (run init (one_member @ [LogPush ''a'' JUndefined 9]))) = Some TypeError"
  by code_simp

text \<open>
  C8. Invoking disconnect-cleanup twice for a connection leaves the same state as
  invoking it once: after the first cleanup the connection is forgotten and in no member
  set, one membership notification was sent to the remaining members of its stream (none
  when it had no stream), and a second invocation, of the listener or of the whole close,
  changes nothing and sends nothing.
\<close>

theorem cleanup_idempotent:
  assumes "fresh_run init evs" and "fst (run init evs) = st"
    and "map_of (sockets st) sid = Some nid"
    and "step st (Disconnect sid) = Inr (st1, out1)"
  shows "disconnect st1 sid = (st1, []) \<and>
         step st1 (Disconnect sid) = Inr (st1, []) \<and>
         map_of (nodeMap st1) sid = None \<and>
         (\<forall>k. \<not> member_of st1 sid k) \<and>
         ((\<forall>k. \<not> member_of st sid k) \<longrightarrow> out1 = []) \<and>
         (\<forall>key. member_of st sid key \<longrightarrow>
            (\<exists>rcp ns. out1 = [(rcp, NodeList key ns)] \<and> sid \<notin> set rcp))"
proof -
  note i = reachable_inv [OF assms(1,2)]
  have r: "disconnect (socket_close sid st) sid = (st1, out1)"
    using assms(3,4) by simp
  then have st1: "st1 = nodeMap_delete sid (detached sid st)"
    using disconnect_socket_close [OF i assms(3)] by simp
  have out1: "out1 = (case currentStream st sid of
        None \<Rightarrow> []
      | Some key \<Rightarrow> [(Set_delete sid (room_members (rooms st) key),
                      NodeList key (getStreamNodes (detached sid st) key))])"
    using disconnect_out [OF i assms(3)] r by simp
  have 1: "disconnect st1 sid = (st1, [])"
    using disconnect_twice [of "socket_close sid st" sid] r by simp
  have 2: "step st1 (Disconnect sid) = Inr (st1, [])"
    by (simp add: st1)
  have 3: "map_of (nodeMap st1) sid = None"
    by (simp add: st1)
  have 4: "\<forall>k. \<not> member_of st1 sid k"
    by (simp add: st1 member_of_detached [OF i])
  have 5: "(\<forall>k. \<not> member_of st sid k) \<longrightarrow> out1 = []"
    using no_member_no_current [OF i, of sid] out1 by auto
  have 6: "\<exists>rcp ns. out1 = [(rcp, NodeList key ns)] \<and> sid \<notin> set rcp" if m: "member_of st sid key" for key
  proof (cases "currentStream st sid")
    case None
    then show ?thesis using no_current_no_member [OF i None, of key] m by simp
  next
    case (Some k)
    then have "k = key" using current_member(2) [OF i Some m] by simp
    then show ?thesis using out1 Some by simp
  qed
  show ?thesis using 1 2 3 4 5 6 by blast
qed

theorem cleanup_idempotent_witness:
  "fresh_run init two_members \<and> fst (run init two_members) = two_members_state \<and>
   map_of (sockets two_members_state) ''a'' = Some ''node-u1'' \<and>
   step two_members_state (Disconnect ''a'') =
     Inr (one_left_state, [([''b''], NodeList ''S1'' [''node-u2''])]) \<and>
   disconnect one_left_state ''a'' = (one_left_state, []) \<and>
   step one_left_state (Disconnect ''a'') = Inr (one_left_state, [])"
proof -
  have h1: "fresh_run init two_members" by code_simp
  have h2: "fst (run init two_members) = two_members_state" by code_simp
  have h3: "map_of (sockets two_members_state) ''a'' = Some ''node-u1''"
    by (simp add: two_members_state_def)
  have h4: "step two_members_state (Disconnect ''a'') =
     Inr (one_left_state, [([''b''], NodeList ''S1'' [''node-u2''])])"
    by code_simp
  show ?thesis using h1 h2 h3 h4 cleanup_idempotent [OF h1 h2 h3 h4] by simp
qed

text \<open>
  C9. No operation removes a stream from the stream registry: the set of registered
  stream ids only grows along any sequence of events, and, when the generated UUIDs are
  fresh, every registered stream keeps its descriptor (id, name, token, creation time)
  whatever happens to its member set, an empty member set included.
\<close>

theorem streams_never_removed:
  "fst ` set (streams st) \<subseteq> fst ` set (streams (fst (run st evs))) \<and>
   (fresh_run st evs \<longrightarrow>
      (\<forall>k s. map_of (streams st) k = Some s \<longrightarrow>
         (\<exists>s'. map_of (streams (fst (run st evs))) k = Some s' \<and> same_descriptor s s')))"
  using keys_run [of st evs] keeps_run [of st evs] unfolding keeps_def by blast

theorem streams_never_removed_witness:
  "fresh_run one_member_state [StreamLeave ''a''] \<and>
   map_of (streams one_member_state) ''S1'' =
     Some \<lparr>stream_id = ''S1'', name = JStr ''alpha'', passwordHash = JStr ''t1'',
            createdAt = 5, nodes = [''a'']\<rparr> \<and>
   map_of (streams (fst (run one_member_state [StreamLeave ''a'']))) ''S1'' =
     Some \<lparr>stream_id = ''S1'', name = JStr ''alpha'', passwordHash = JStr ''t1'',
            createdAt = 5, nodes = []\<rparr>"
proof -
  have h1: "fresh_run one_member_state [StreamLeave ''a'']" by code_simp
  have h2: "map_of (streams one_member_state) ''S1'' =
     Some \<lparr>stream_id = ''S1'', name = JStr ''alpha'', passwordHash = JStr ''t1'',
            createdAt = 5, nodes = [''a'']\<rparr>"
    by (simp add: one_member_state_def)
  have h3: "map_of (streams (fst (run one_member_state [StreamLeave ''a'']))) ''S1'' =
     Some \<lparr>stream_id = ''S1'', name = JStr ''alpha'', passwordHash = JStr ''t1'',
            createdAt = 5, nodes = []\<rparr>"
    by code_simp
  show ?thesis
    using h1 h2 h3 streams_never_removed [of one_member_state "[StreamLeave ''a'']"] by simp
qed

text \<open>
  C10. A push by a connection that is in no stream's member set fails with the NoStream
  error whatever the data is, an empty or absent payload included; and whenever the
  EmptyPayload error is returned, the connection is in some stream's member set.
\<close>

theorem membership_checked_first:
  assumes "fresh_run init evs" and "fst (run init evs) = st"
  shows "((\<forall>k. \<not> member_of st sid k) \<longrightarrow>
            log_push st sid data now = Inr (st, [socket_emit sid (LogPushFailed NoStream)])) \<and>
         (\<forall>st' out. log_push st sid data now = Inr (st', out) \<and>
            socket_emit sid (LogPushFailed EmptyPayload) \<in> set out \<longrightarrow>
            (\<exists>k. member_of st sid k))"
proof -
  note i = reachable_inv [OF assms]
  have a: "(\<forall>k. \<not> member_of st sid k) \<longrightarrow>
            log_push st sid data now = Inr (st, [socket_emit sid (LogPushFailed NoStream)])"
    using no_member_no_current [OF i] log_push_no_stream by blast
  have b: "\<exists>k. member_of st sid k"
    if h: "log_push st sid data now = Inr (st', out) \<and>
        socket_emit sid (LogPushFailed EmptyPayload) \<in> set out" for st' out
  proof -
    obtain key where "currentStream st sid = Some key"
      using log_push_empty_current [of st sid data now st' out] h by blast
    then show ?thesis using current_member(1) [OF i] by blast
  qed
  show ?thesis using a b by blast
qed

theorem membership_checked_first_witness:
  "fresh_run init one_connected \<and> fst (run init one_connected) = one_connected_state \<and>
   (\<forall>k. \<not> member_of one_connected_state ''a'' k) \<and>
   log_push one_connected_state ''a'' JUndefined 9 =
     Inr (one_connected_state, [socket_emit ''a'' (LogPushFailed NoStream)])"
proof -
  have h1: "fresh_run init one_connected" by code_simp
  have h2: "fst (run init one_connected) = one_connected_state" by code_simp
  have h3: "\<forall>k. \<not> member_of one_connected_state ''a'' k"
    by (simp add: member_of_def one_connected_state_def)
  show ?thesis
    using h1 h2 h3 membership_checked_first [OF h1 h2, of "''a''" JUndefined 9] by simp
qed

end
